theory Spec2Isabelle
  imports Complex_Main "HOL-Library.Word" "HOL-Library.Monad_Syntax"
begin

unbundle bit_operations_syntax

section \<open>Machine integers and the floating-point interface\<close>

type_synonym u32 = "32 word"
type_synonym u64 = "64 word"

text \<open>
  \<open>pi_uint\<close> and \<open>counter_t\<close> are \<open>uint_least64_t\<close>, \<open>unsigned\<close> is 32 bits wide, and
  \<open>long\<close>, \<open>terms_t\<close> are 64-bit signed integers, modelled as \<open>int\<close> within
  \<open>LONG_MIN .. LONG_MAX\<close> with overflow written out as a fault.
\<close>

definition LONG_MAX :: int where
  "LONG_MAX = 2 ^ 63 - 1"

definition LONG_MIN :: int where
  "LONG_MIN = - (2 ^ 63)"

definition EXIT_SUCCESS :: int where
  "EXIT_SUCCESS = 0"

definition EXIT_FAILURE :: int where
  "EXIT_FAILURE = 1"

text \<open>
  The arithmetic of \<open>pi_flt\<close>, \<open>pi_res_t\<close> (both \<open>double\<close>) is supplied by the C
  implementation, not by the repository. The programs are therefore modelled over an
  arbitrary carrier \<open>'f\<close> with the operations the sources use: decimal literals
  (\<open>f_dec n k\<close> is the literal with digits \<open>n\<close> and \<open>k\<close> decimal places, so
  \<open>14.181647462725477\<close> is \<open>f_dec 14181647462725477 15\<close> and \<open>6.0\<close> is \<open>f_dec 6 0\<close>), the
  conversions from and to the integer types, the four arithmetic operations and negation
  (\<open>fpu\<close>), and \<open>sqrt\<close>, \<open>pow\<close> of the mathematics library (\<open>libm\<close>). A conversion to \<open>pi_uint\<close> of a value
  that the integer type cannot hold is undefined in C: \<open>f_to_u64\<close> returns \<open>None\<close> there.
\<close>

record 'f fpu =
  f_dec :: "int \<Rightarrow> nat \<Rightarrow> 'f"
  f_of_u64 :: "u64 \<Rightarrow> 'f"
  f_of_long :: "int \<Rightarrow> 'f"
  f_to_u64 :: "'f \<Rightarrow> u64 option"
  f_add :: "'f \<Rightarrow> 'f \<Rightarrow> 'f"
  f_sub :: "'f \<Rightarrow> 'f \<Rightarrow> 'f"
  f_mul :: "'f \<Rightarrow> 'f \<Rightarrow> 'f"
  f_div :: "'f \<Rightarrow> 'f \<Rightarrow> 'f"
  f_neg :: "'f \<Rightarrow> 'f"

record 'f libm =
  m_sqrt :: "'f \<Rightarrow> 'f"
  m_pow :: "'f \<Rightarrow> 'f \<Rightarrow> 'f"

text \<open>
  Executions that the C standard leaves undefined, or that never return, are results of
  their own.
\<close>

datatype fault = Signed_overflow | Float_to_integer | No_return | Out_of_bounds | Uninitialised_handle

record prog_exit =
  status :: int
  out :: string
  err :: string

section \<open>The C library routines the programs call\<close>

text \<open>
  \<open>strtol\<close> and \<open>strtoul\<close> with base 10 and a null end pointer, as ISO C describes them
  in the C locale: leading white space is skipped, one sign is accepted, the longest run
  of decimal digits is converted (none gives 0), and a value out of range is clamped.
\<close>

definition newline :: char where
  "newline = CHR 0x0A"

definition isspace :: "char \<Rightarrow> bool" where
  "isspace c = (c \<in> set [CHR '' '', CHR 0x09, CHR 0x0A, CHR 0x0B, CHR 0x0C, CHR 0x0D])"

definition isdigit :: "char \<Rightarrow> bool" where
  "isdigit c = (c \<in> set ''0123456789'')"

definition digit_value :: "char \<Rightarrow> int" where
  "digit_value c = int (of_char c) - 48"

fun strtol_digits :: "int \<Rightarrow> string \<Rightarrow> int" where
  "strtol_digits acc [] = acc"
| "strtol_digits acc (c # cs) =
     (if isdigit c then strtol_digits (10 * acc + digit_value c) cs else acc)"

definition strtol_parse :: "string \<Rightarrow> bool \<times> int" where
  "strtol_parse s =
     (let r = dropWhile isspace s in
      if r \<noteq> [] \<and> hd r = CHR ''-'' then (True, strtol_digits 0 (tl r))
      else if r \<noteq> [] \<and> hd r = CHR ''+'' then (False, strtol_digits 0 (tl r))
      else (False, strtol_digits 0 r))"

definition strtol :: "string \<Rightarrow> int" where
  "strtol s =
     (case strtol_parse s of
        (neg, v) \<Rightarrow> max LONG_MIN (min LONG_MAX (if neg then - v else v)))"

definition strtoul :: "string \<Rightarrow> u64" where
  "strtoul s =
     (case strtol_parse s of
        (neg, v) \<Rightarrow> if 2 ^ 64 \<le> v then - 1 else if neg then - word_of_int v else word_of_int v)"

text \<open>
  What \<open>printf\<close> writes for the conversions \<open>%ld\<close>, \<open>%03ld\<close> (zero padding to a field
  of three characters) and \<open>%lu\<close>.
\<close>

definition digit_char :: "nat \<Rightarrow> char" where
  "digit_char d = ''0123456789'' ! d"

function digits10 :: "nat \<Rightarrow> string" where
  "digits10 n = (if n < 10 then [digit_char n] else digits10 (n div 10) @ [digit_char (n mod 10)])"
  by pat_completeness auto
termination
  by (relation "measure id") auto

declare digits10.simps [simp del]

definition printf_ld :: "int \<Rightarrow> string" where
  "printf_ld v = (if v < 0 then CHR ''-'' # digits10 (nat (- v)) else digits10 (nat v))"

definition printf_03ld :: "int \<Rightarrow> string" where
  "printf_03ld v =
     (if v < 0 then CHR ''-'' # replicate (2 - length (digits10 (nat (- v)))) CHR ''0'' @ digits10 (nat (- v))
      else replicate (3 - length (digits10 (nat v))) CHR ''0'' @ digits10 (nat v))"

definition printf_lu :: "u64 \<Rightarrow> string" where
  "printf_lu w = digits10 (unat w)"

definition argv0 :: "string list \<Rightarrow> string" where
  "argv0 argv = (case argv of [] \<Rightarrow> ''(null)'' | p # _ \<Rightarrow> p)"

section \<open>pi\_chudnovsky.c: binary splitting\<close>

record 'f result_flts =
  Pab :: 'f
  Qab :: 'f
  Tab :: 'f

text \<open>
  The branch \<open>b - a == 1\<close> of \<open>chudnovsky_binarysplit\<close>. In \<open>6.0 * a\<close> the integer is
  converted to \<open>double\<close> first; in \<open>a * a * a * QabaM\<close> the product \<open>a * a * a\<close> is
  formed in \<open>pi_uint\<close> (wrapping at \<open>2^64\<close>) and only then converted.
\<close>

definition binarysplit_leaf :: "'f fpu \<Rightarrow> u64 \<Rightarrow> 'f result_flts" where
  "binarysplit_leaf ops a =
     (let fa = f_of_u64 ops a;
          P = (if a = 0 then f_dec ops 1 0
               else f_mul ops
                      (f_mul ops (f_sub ops (f_mul ops (f_dec ops 6 0) fa) (f_dec ops 5 0))
                                 (f_sub ops (f_mul ops (f_dec ops 2 0) fa) (f_dec ops 1 0)))
                      (f_sub ops (f_mul ops (f_dec ops 6 0) fa) (f_dec ops 1 0)));
          Q = (if a = 0 then f_dec ops 1 0
               else f_mul ops (f_of_u64 ops (a * a * a)) (f_dec ops 10939058860032000 0));
          T = f_mul ops P (f_add ops (f_mul ops (f_dec ops 545140134 0) fa) (f_dec ops 13591409 0))
      in \<lparr>Pab = P, Qab = Q, Tab = (if a AND 1 \<noteq> 0 then f_neg ops T else T)\<rparr>)"

text \<open>The three assignments of the \<open>else\<close> branch, from the results \<open>am\<close> and \<open>mb\<close>.\<close>

definition binarysplit_combine :: "'f fpu \<Rightarrow> 'f result_flts \<Rightarrow> 'f result_flts \<Rightarrow> 'f result_flts" where
  "binarysplit_combine ops am mb =
     \<lparr>Pab = f_mul ops (Pab am) (Pab mb),
      Qab = f_mul ops (Qab am) (Qab mb),
      Tab = f_add ops (f_mul ops (Qab mb) (Tab am)) (f_mul ops (Pab am) (Tab mb))\<rparr>"

text \<open>
  The recursion itself, on \<open>pi_uint\<close> arguments: \<open>b - a\<close> and \<open>a + b\<close> wrap. The C function
  need not return (for \<open>a = b\<close> it calls itself with the same arguments), so the model is
  a partial function and \<open>None\<close> stands for a call that never returns.
\<close>

partial_function (option) chudnovsky_binarysplit :: "'f fpu \<Rightarrow> u64 \<Rightarrow> u64 \<Rightarrow> 'f result_flts option" where
  "chudnovsky_binarysplit ops a b =
     (if b - a = 1 then Some (binarysplit_leaf ops a)
      else (let m = (a + b) div 2 in
            do {
              am \<leftarrow> chudnovsky_binarysplit ops a m;
              mb \<leftarrow> chudnovsky_binarysplit ops m b;
              Some (binarysplit_combine ops am mb)
            }))"

text \<open>
  The argument of the call in \<open>main\<close>:
  \<open>(pi_uint)((pi_flt)digits / 14.181647462725477) + (pi_uint)(1U)\<close>.
\<close>

definition chudnovsky_terms :: "'f fpu \<Rightarrow> int \<Rightarrow> u64 option" where
  "chudnovsky_terms ops digits =
     map_option (\<lambda>q. q + 1)
       (f_to_u64 ops (f_div ops (f_of_long ops digits) (f_dec ops 14181647462725477 15)))"

text \<open>
  \<open>(res.Qab * 426880.0 * sqrt(10005.0 * pow(10.0, (double)digits))) / res.Tab\<close>, before
  its conversion to \<open>pi_uint\<close>.
\<close>

definition chudnovsky_pi :: "'f fpu \<Rightarrow> 'f libm \<Rightarrow> int \<Rightarrow> 'f result_flts \<Rightarrow> 'f" where
  "chudnovsky_pi ops lm digits res =
     f_div ops
       (f_mul ops (f_mul ops (Qab res) (f_dec ops 426880 0))
          (m_sqrt lm (f_mul ops (f_dec ops 10005 0) (m_pow lm (f_dec ops 10 0) (f_of_long ops digits)))))
       (Tab res)"

definition print_pi :: "'f fpu \<Rightarrow> 'f libm \<Rightarrow> int \<Rightarrow> 'f result_flts \<Rightarrow> fault + prog_exit" where
  "print_pi ops lm digits res =
     (case f_to_u64 ops (chudnovsky_pi ops lm digits res) of
        None \<Rightarrow> Inl Float_to_integer
      | Some pi_digits \<Rightarrow>
          Inr \<lparr>status = EXIT_SUCCESS,
               out = ''Pi approximation: '' @ printf_lu pi_digits @ [newline],
               err = []\<rparr>)"

definition main_chudnovsky :: "'f fpu \<Rightarrow> 'f libm \<Rightarrow> string list \<Rightarrow> fault + prog_exit" where
  "main_chudnovsky ops lm argv =
     (if length argv \<noteq> 2
      then Inr \<lparr>status = EXIT_FAILURE, out = [],
                err = ''Usage: '' @ argv0 argv @ '' pi_digits'' @ [newline]\<rparr>
      else if strtol (argv ! 1) * 2 < LONG_MIN \<or> LONG_MAX < strtol (argv ! 1) * 2
      then Inl Signed_overflow
      else (let digits = strtol (argv ! 1) * 2 in
            if digits < 0
            then Inr \<lparr>status = EXIT_FAILURE, out = [],
                      err = ''Digits count must be larger than 0.'' @ [newline]\<rparr>
            else (case chudnovsky_terms ops digits of
                    None \<Rightarrow> Inl Float_to_integer
                  | Some b \<Rightarrow>
                      (case chudnovsky_binarysplit ops 0 b of
                         None \<Rightarrow> Inl No_return
                       | Some res \<Rightarrow> print_pi ops lm digits res))))"

section \<open>pi\_infseries.c: the five series\<close>

text \<open>
  \<open>#define LOOP_TERMS(expr) do expr while(--terms)\<close> with \<open>terms\<close> of type \<open>long\<close>:
  the body runs, then \<open>terms\<close> is decremented and tested. Decrementing \<open>LONG_MIN\<close> is a
  signed overflow. The state carries the variables the body assigns; the natural number
  beside it counts the executions of the body.
\<close>

function LOOP_TERMS :: "('s \<Rightarrow> 's) \<Rightarrow> int \<Rightarrow> 's \<times> nat \<Rightarrow> fault + 's \<times> nat" where
  "LOOP_TERMS expr terms (s, n) =
     (if terms \<le> LONG_MIN then Inl Signed_overflow
      else if terms - 1 \<noteq> 0 then LOOP_TERMS expr (terms - 1) (expr s, Suc n)
      else Inr (expr s, Suc n))"
  by pat_completeness auto
termination
  by (relation "measure (\<lambda>(expr, terms, sn). nat (terms - LONG_MIN))") auto

declare LOOP_TERMS.simps [simp del]

definition wallis_body :: "'f fpu \<Rightarrow> 'f \<times> 'f \<times> 'f \<Rightarrow> 'f \<times> 'f \<times> 'f" where
  "wallis_body ops v =
     (case v of (res, top', bottom) \<Rightarrow>
        (let top' = f_add ops top' (f_dec ops 2 0);
             res = f_mul ops res (f_div ops top' bottom);
             bottom = f_add ops bottom (f_dec ops 2 0);
             res = f_mul ops res (f_div ops top' bottom)
         in (res, top', bottom)))"

definition wallis_product :: "'f fpu \<Rightarrow> int \<Rightarrow> fault + 'f" where
  "wallis_product ops terms =
     (case LOOP_TERMS (wallis_body ops) terms ((f_dec ops 1 0, f_dec ops 0 0, f_dec ops 1 0), 0) of
        Inl e \<Rightarrow> Inl e
      | Inr ((res, top', bottom), n) \<Rightarrow> Inr (f_mul ops res (f_dec ops 2 0)))"

definition vietes_body :: "'f fpu \<Rightarrow> 'f libm \<Rightarrow> 'f \<times> 'f \<Rightarrow> 'f \<times> 'f" where
  "vietes_body ops lm v =
     (case v of (res, sqr_res) \<Rightarrow>
        (let sqr_res = m_sqrt lm (f_add ops (f_dec ops 2 0) sqr_res);
             res = f_mul ops res (f_div ops (f_dec ops 2 0) sqr_res)
         in (res, sqr_res)))"

definition vietes_formula :: "'f fpu \<Rightarrow> 'f libm \<Rightarrow> int \<Rightarrow> fault + 'f" where
  "vietes_formula ops lm terms =
     (case LOOP_TERMS (vietes_body ops lm) terms ((f_dec ops 1 0, f_dec ops 0 0), 0) of
        Inl e \<Rightarrow> Inl e
      | Inr ((res, sqr_res), n) \<Rightarrow> Inr (f_mul ops res (f_dec ops 2 0)))"

definition nilakantha_body :: "'f fpu \<Rightarrow> 'f \<times> 'f \<times> 'f \<times> 'f \<Rightarrow> 'f \<times> 'f \<times> 'f \<times> 'f" where
  "nilakantha_body ops v =
     (case v of (res, denom_cnt, sign, denom) \<Rightarrow>
        (let denom = f_mul ops denom_cnt (f_add ops denom_cnt (f_dec ops 1 0));
             denom_cnt = f_add ops denom_cnt (f_dec ops 2 0);
             denom = f_mul ops denom denom_cnt;
             sign = f_neg ops sign;
             res = f_add ops res (f_mul ops (f_div ops (f_dec ops 4 0) denom) sign)
         in (res, denom_cnt, sign, denom)))"

definition nilakantha :: "'f fpu \<Rightarrow> int \<Rightarrow> fault + 'f" where
  "nilakantha ops terms =
     (case LOOP_TERMS (nilakantha_body ops) terms
             ((f_dec ops 3 0, f_dec ops 2 0, f_neg ops (f_dec ops 1 0), f_dec ops 0 0), 0) of
        Inl e \<Rightarrow> Inl e
      | Inr ((res, denom_cnt, sign, denom), n) \<Rightarrow> Inr res)"

definition madhava_leibniz_body :: "'f fpu \<Rightarrow> 'f \<times> 'f \<times> 'f \<Rightarrow> 'f \<times> 'f \<times> 'f" where
  "madhava_leibniz_body ops v =
     (case v of (res, sign, denom) \<Rightarrow>
        (let denom = f_add ops denom (f_dec ops 2 0);
             sign = f_neg ops sign;
             res = f_add ops res (f_mul ops (f_div ops (f_dec ops 1 0) denom) sign)
         in (res, sign, denom)))"

definition madhava_leibniz_formula :: "'f fpu \<Rightarrow> int \<Rightarrow> fault + 'f" where
  "madhava_leibniz_formula ops terms =
     (case LOOP_TERMS (madhava_leibniz_body ops) terms ((f_dec ops 1 0, f_dec ops 1 0, f_dec ops 1 0), 0) of
        Inl e \<Rightarrow> Inl e
      | Inr ((res, sign, denom), n) \<Rightarrow> Inr (f_mul ops res (f_dec ops 4 0)))"

definition newton_arctan_body ::
  "'f fpu \<Rightarrow> 'f \<times> 'f \<times> 'f \<times> 'f \<times> 'f \<Rightarrow> 'f \<times> 'f \<times> 'f \<times> 'f \<times> 'f" where
  "newton_arctan_body ops v =
     (case v of (res, fract_num, fract_den, fract_tot, den_mult) \<Rightarrow>
        (let den_mult = f_mul ops den_mult (f_dec ops 2 0);
             fract_num = f_add ops fract_num (f_dec ops 2 0);
             fract_den = f_add ops fract_den (f_dec ops 2 0);
             fract_tot = f_mul ops fract_tot (f_div ops fract_num fract_den);
             res = f_add ops res (f_mul ops (f_div ops (f_dec ops 1 0) den_mult) fract_tot)
         in (res, fract_num, fract_den, fract_tot, den_mult)))"

definition newton_arctan_pi :: "'f fpu \<Rightarrow> int \<Rightarrow> fault + 'f" where
  "newton_arctan_pi ops terms =
     (case LOOP_TERMS (newton_arctan_body ops) terms
             ((f_dec ops 5 1, f_dec ops 0 0, f_dec ops 1 0, f_dec ops 1 0, f_dec ops 2 0), 0) of
        Inl e \<Rightarrow> Inl e
      | Inr ((res, fract_num, fract_den, fract_tot, den_mult), n) \<Rightarrow> Inr (f_mul ops res (f_dec ops 4 0)))"

section \<open>pi\_infseries.c: execution\<close>

definition series_function_data :: "'f fpu \<Rightarrow> 'f libm \<Rightarrow> ((int \<Rightarrow> fault + 'f) \<times> string) list" where
  "series_function_data ops lm =
     [(wallis_product ops, ''Wallis product''),
      (vietes_formula ops lm, ''Viete's formula''),
      (nilakantha ops, ''Nilakantha series''),
      (madhava_leibniz_formula ops, ''Madhava-Leibniz formula (arctan)''),
      (newton_arctan_pi ops, ''Newton series (arctan)'')]"

definition count_series_functions :: int where
  "count_series_functions = 5"

function print_thousands_sepd_num :: "int \<Rightarrow> string" where
  "print_thousands_sepd_num terms =
     (if terms \<ge> 1000
      then print_thousands_sepd_num (terms div 1000) @ CHR '','' # printf_03ld (terms mod 1000)
      else printf_ld terms)"
  by pat_completeness auto
termination
  by (relation "measure nat") auto

declare print_thousands_sepd_num.simps [simp del]

text \<open>
  The observable steps of the series program, in program order. The line that
  \<open>do_series\<close> prints is kept as the series name with the computed value; the two
  \<open>clock\<close> readings in it are not modelled.
\<close>

record thread_series_data =
  series_index :: int
  terms_count :: int

datatype 'f event =
    Stdout string
  | Stderr string
  | Series_result string 'f
  | Thread_create nat thread_series_data
  | Thread_join nat

text \<open>
  \<open>do_series\<close> declares both parameters as \<open>int\<close>, so a \<open>long\<close> argument is converted;
  the conversion keeps the low 32 bits.
\<close>

definition int_of_long :: "int \<Rightarrow> int" where
  "int_of_long v = (v + 2 ^ 31) mod 2 ^ 32 - 2 ^ 31"

definition do_series :: "'f fpu \<Rightarrow> 'f libm \<Rightarrow> int \<Rightarrow> int \<Rightarrow> fault + 'f event" where
  "do_series ops lm index given_terms_count =
     (if index < 0 \<or> count_series_functions \<le> index then Inl Out_of_bounds
      else (case series_function_data ops lm ! nat index of
              (address, given_name) \<Rightarrow>
                (case address given_terms_count of
                   Inl e \<Rightarrow> Inl e
                 | Inr res \<Rightarrow> Inr (Series_result given_name res))))"

definition do_series_thread :: "'f fpu \<Rightarrow> 'f libm \<Rightarrow> thread_series_data \<Rightarrow> fault + 'f event" where
  "do_series_thread ops lm given_data =
     do_series ops lm (series_index given_data) (int_of_long (terms_count given_data))"

definition usage_infseries :: "'f fpu \<Rightarrow> 'f libm \<Rightarrow> string list \<Rightarrow> 'f event list" where
  "usage_infseries ops lm argv =
     Stderr (''Usage: '' @ argv0 argv @ '' series_choice series_terms'' @ [newline] @ ''Choices:''
             @ [newline] @ ''all - All below series'' @ [newline])
     # map (\<lambda>i. Stdout (''  '' @ printf_ld (int i + 1) @ '' - ''
                          @ snd (series_function_data ops lm ! i) @ [newline]))
         [0 ..< nat count_series_functions]"

text \<open>
  The fan-out of the \<open>all\<close> choice. \<open>malloc_ok i\<close> tells whether the allocation of the
  \<open>i\<close>-th payload succeeds. A failed allocation leaves \<open>thread_handlers[i]\<close> unset, and the
  join loop then reads it.
\<close>

definition spawn_all :: "'f fpu \<Rightarrow> 'f libm \<Rightarrow> (nat \<Rightarrow> bool) \<Rightarrow> int \<Rightarrow> 'f event list" where
  "spawn_all ops lm malloc_ok given_terms_count =
     concat (map (\<lambda>i. if malloc_ok i
                       then [Thread_create i \<lparr>series_index = int i, terms_count = given_terms_count\<rparr>]
                       else [Stderr (''Could not allocate memory for series '' @ [CHR 0x22]
                                     @ snd (series_function_data ops lm ! i) @ [CHR 0x22]
                                     @ ''. Skipping.'')])
                 [0 ..< nat count_series_functions])"

definition main_infseries ::
  "'f fpu \<Rightarrow> 'f libm \<Rightarrow> (nat \<Rightarrow> bool) \<Rightarrow> string list \<Rightarrow> fault + int \<times> 'f event list" where
  "main_infseries ops lm malloc_ok argv =
     (if length argv \<noteq> 3 then Inr (EXIT_FAILURE, usage_infseries ops lm argv)
      else (let is_all_series = (argv ! 1 \<noteq> [] \<and> hd (argv ! 1) = CHR ''a'');
                given_series_value = (if is_all_series then - 1 else strtol (argv ! 1))
            in if \<not> is_all_series \<and> (given_series_value < 1 \<or> given_series_value > count_series_functions)
               then Inr (EXIT_FAILURE, [Stderr (''Invalid series option.'' @ [newline])])
               else (let given_terms_count = strtol (argv ! 2)
                     in if given_terms_count \<le> 0
                        then Inr (EXIT_FAILURE, [Stderr (''Terms value must be larger than 0.'' @ [newline])])
                        else (let header =
                                    [Stdout ''Terms: '',
                                     Stdout (print_thousands_sepd_num given_terms_count),
                                     Stdout ([newline] @ ''Chosen series: ''
                                             @ (if is_all_series then ''All''
                                                else snd (series_function_data ops lm ! nat (given_series_value - 1)))
                                             @ [newline])]
                              in if \<not> is_all_series
                                 then (case do_series ops lm (int_of_long (given_series_value - 1))
                                              (int_of_long given_terms_count) of
                                         Inl e \<Rightarrow> Inl e
                                       | Inr line \<Rightarrow> Inr (EXIT_SUCCESS, header @ [line]))
                                 else if list_all malloc_ok [0 ..< nat count_series_functions]
                                 then Inr (EXIT_SUCCESS,
                                           header @ spawn_all ops lm malloc_ok given_terms_count
                                           @ map Thread_join [0 ..< nat count_series_functions])
                                 else Inl Uninitialised_handle))))"

section \<open>pi\_mcarlo.c: sampling\<close>

text \<open>
  \<open>fastrand01\<close> and the point test compute in \<open>float\<close>. As for \<open>double\<close>, the arithmetic
  is a parameter: the conversions \<open>(float)\<close> of an \<open>unsigned\<close> and of an \<open>int\<close>, the
  operations \<open>+\<close>, \<open>*\<close>, \<open>/\<close>, and the comparison of a \<open>float\<close> with a \<open>double\<close>
  decimal literal. \<open>RAND_MAX\<close> comes from \<open>stdlib.h\<close>.
\<close>

record 'g fpu32 =
  RAND_MAX :: int
  s_of_unsigned :: "u32 \<Rightarrow> 'g"
  s_of_int :: "int \<Rightarrow> 'g"
  s_add :: "'g \<Rightarrow> 'g \<Rightarrow> 'g"
  s_mul :: "'g \<Rightarrow> 'g \<Rightarrow> 'g"
  s_div :: "'g \<Rightarrow> 'g \<Rightarrow> 'g"
  s_less_dec :: "'g \<Rightarrow> int \<Rightarrow> nat \<Rightarrow> bool"

text \<open>
  \<open>(float)((*seed = 3812762923u * (*seed)) & RAND_MAX) / (float)RAND_MAX\<close>: the result
  is the returned value together with the seed that the call leaves behind.
\<close>

definition fastrand01 :: "'g fpu32 \<Rightarrow> u32 \<Rightarrow> 'g \<times> u32" where
  "fastrand01 fo seed =
     (let seed' = 3812762923 * seed
      in (s_div fo (s_of_unsigned fo (seed' AND word_of_int (RAND_MAX fo))) (s_of_int fo (RAND_MAX fo)),
          seed'))"

text \<open>
  A run of the generator: the successive calls of \<open>fastrand01\<close> on one seed variable,
  each recorded with the value it returns and the seed it stores.
\<close>

inductive fastrand_run :: "'g fpu32 \<Rightarrow> u32 \<Rightarrow> ('g \<times> u32) list \<Rightarrow> bool" for fo :: "'g fpu32" where
  no_call: "fastrand_run fo seed []"
| call: "fastrand01 fo seed = (v, seed') \<Longrightarrow> fastrand_run fo seed' calls \<Longrightarrow>
     fastrand_run fo seed ((v, seed') # calls)"

text \<open>
  One pass of the loop body of \<open>approximate_pi_mcarlo\<close> on the seed and the two counters
  \<open>counter_arrays[0]\<close>, \<open>counter_arrays[1]\<close>.
\<close>

definition mcarlo_point :: "'g fpu32 \<Rightarrow> u32 \<times> u64 \<times> u64 \<Rightarrow> u32 \<times> u64 \<times> u64" where
  "mcarlo_point fo st =
     (case st of (seed, c0, c1) \<Rightarrow>
        (case fastrand01 fo seed of (randX, seed1) \<Rightarrow>
           (case fastrand01 fo seed1 of (randY, seed2) \<Rightarrow>
              if s_less_dec fo (s_add fo (s_mul fo randX randX) (s_mul fo randY randY)) 1 0
              then (seed2, c0, c1 + 1)
              else (seed2, c0 + 1, c1))))"

function mcarlo_loop :: "'g fpu32 \<Rightarrow> u64 \<Rightarrow> u64 \<Rightarrow> u32 \<times> u64 \<times> u64 \<Rightarrow> u32 \<times> u64 \<times> u64" where
  "mcarlo_loop fo num_iterations i st =
     (if i < num_iterations then mcarlo_loop fo num_iterations (i + 1) (mcarlo_point fo st) else st)"
  by pat_completeness auto
termination
proof (relation "measure (\<lambda>(fo, num_iterations, i, st). unat num_iterations - unat i)")
  show "wf (measure (\<lambda>(fo, num_iterations, i, st). unat num_iterations - unat i))"
    by simp
next
  fix fo :: "'g fpu32" and num_iterations i :: u64 and st :: "u32 \<times> u64 \<times> u64"
  assume less: "i < num_iterations"
  then have "unat (i + 1) = unat i + 1"
    by unat_arith
  moreover from less have "unat i < unat num_iterations"
    by (simp add: word_less_nat_alt)
  ultimately show "((fo, num_iterations, i + 1, mcarlo_point fo st), (fo, num_iterations, i, st))
      \<in> measure (\<lambda>(fo, num_iterations, i, st). unat num_iterations - unat i)"
    by simp
qed

declare mcarlo_loop.simps [simp del]

text \<open>
  \<open>seed\<close> is what \<open>(rand() + 214584u) * time(NULL)\<close> gives in the call; the counters are
  the two cells behind \<open>results_array\<close>, first the outside count, then the inside count.
\<close>

definition approximate_pi_mcarlo :: "'g fpu32 \<Rightarrow> u64 \<Rightarrow> u32 \<Rightarrow> u64 \<times> u64 \<Rightarrow> u64 \<times> u64" where
  "approximate_pi_mcarlo fo num_iterations seed counter_arrays =
     snd (mcarlo_loop fo num_iterations 0 (seed, counter_arrays))"

section \<open>pi\_mcarlo.c: the orchestrator\<close>

text \<open>
  The creation loop, the join loop and the summation stand between \<open>#if num_threads > 1\<close>
  and \<open>#endif\<close>. The directive is evaluated by the preprocessor; \<open>num_threads\<close> is a
  variable of \<open>main\<close> and not a macro, and in the controlling expression of \<open>#if\<close> every
  identifier that is left after macro replacement stands for \<open>0\<close>. The condition is
  therefore \<open>0 > 1\<close>, whatever the arguments of the program are.
\<close>

definition if_num_threads_gt_1 :: bool where
  "if_num_threads_gt_1 = ((0 :: int) > 1)"

record 'f mcarlo_run =
  mc_status :: int
  created :: "nat list"
  joined :: "nat list"
  inside :: u64
  outside :: u64
  approximation :: 'f

definition sum_results :: "(u64 \<times> u64) list \<Rightarrow> u64 \<times> u64 \<Rightarrow> nat list \<Rightarrow> u64 \<times> u64" where
  "sum_results thread_results local_results is =
     foldl (\<lambda>l i. (fst l + fst (thread_results ! i), snd l + snd (thread_results ! i))) local_results is"

text \<open>
  \<open>seeds i\<close> is the seed that the sampler working on \<open>thread_results[i]\<close> draws. A worker
  writes its own row only and is joined before the rows are read, so its effect is the
  update of that row. The lists \<open>created\<close> and \<open>joined\<close> hold the rows handed to
  \<open>pidef_create_thread\<close> and the handles given to \<open>pidef_join_thread\<close>. A thread count
  below 1 makes \<open>thread_results[num_threads - 1]\<close> an access outside the table.
\<close>

definition main_mcarlo ::
  "'f fpu \<Rightarrow> 'g fpu32 \<Rightarrow> (nat \<Rightarrow> u32) \<Rightarrow> string list \<Rightarrow> fault + (prog_exit + 'f mcarlo_run)" where
  "main_mcarlo ops fo seeds argv =
     (if length argv \<noteq> 3
      then Inr (Inl \<lparr>status = EXIT_FAILURE, out = [],
                     err = ''Usage: '' @ argv0 argv @ '' points_per_thread num_threads'' @ [newline]\<rparr>)
      else (let num_iterations = strtoul (argv ! 1);
                num_threads = strtol (argv ! 2)
            in if num_threads < 1 then Inl Out_of_bounds
               else (let thread_results = replicate (nat num_threads) (0, 0);
                         workers = (if if_num_threads_gt_1 then [0 ..< nat (num_threads - 1)] else []);
                         thread_results =
                           foldl (\<lambda>tr i. tr[i := approximate_pi_mcarlo fo num_iterations (seeds i) (tr ! i)])
                             thread_results workers;
                         local_results =
                           approximate_pi_mcarlo fo num_iterations (seeds (nat (num_threads - 1)))
                             (thread_results ! nat (num_threads - 1));
                         local_results =
                           (if if_num_threads_gt_1
                            then sum_results thread_results local_results [0 ..< nat (num_threads - 1)]
                            else local_results)
                     in Inr (Inr \<lparr>mc_status = 0, created = workers, joined = workers,
                                  inside = snd local_results, outside = fst local_results,
                                  approximation =
                                    f_div ops (f_mul ops (f_dec ops 4 0) (f_of_u64 ops (snd local_results)))
                                      (f_of_u64 ops (fst local_results + snd local_results))\<rparr>))))"

section \<open>Two instances of the arithmetic\<close>

subsection \<open>IEEE 754 binary floating point, rounding to nearest even\<close>

text \<open>
  A finite number is \<open>Some (m, e)\<close> with value \<open>m * 2^e\<close>, where \<open>m\<close> is \<open>0\<close> (and \<open>e\<close>
  too) or has exactly \<open>p\<close> bits, \<open>p\<close> being the precision of the format (53 for
  \<open>double\<close>, 24 for \<open>float\<close>). \<open>None\<close> is every other outcome: an overflow, a result
  below the normal range, a division by zero, the square root of a negative number.
  Each operation rounds its exact result once; products are not fused with sums and no
  wider intermediate format is used.
\<close>

type_synonym ieee = "(int \<times> int) option"

text \<open>The number of bits of a positive integer, counted 64 at a time while possible.\<close>

function bitlen :: "int \<Rightarrow> nat" where
  "bitlen n =
     (if n \<le> 0 then 0
      else if 2 ^ 64 \<le> n then 64 + bitlen (n div 2 ^ 64)
      else Suc (bitlen (n div 2)))"
  by pat_completeness auto
termination
  by (relation "measure nat") auto

declare bitlen.simps [simp del]

definition round_carry :: "nat \<Rightarrow> int \<Rightarrow> int \<Rightarrow> int \<Rightarrow> bool \<Rightarrow> int \<times> int" where
  "round_carry p s e q up =
     (if up then (if q + 1 = 2 ^ p then (s * 2 ^ (p - 1), e + 1) else (s * (q + 1), e))
      else (s * q, e))"

text \<open>
  \<open>round_shift\<close> drops the \<open>k\<close> low bits of \<open>m\<close>; \<open>inexact\<close> says that the exact value
  lies strictly beyond \<open>m * 2^e\<close> (a division or square root with a remainder).
\<close>

definition round_shift :: "nat \<Rightarrow> int \<Rightarrow> int \<Rightarrow> bool \<Rightarrow> int \<Rightarrow> int \<times> int" where
  "round_shift p m e inexact k =
     (if k \<le> 0 then (m * 2 ^ nat (- k), e + k)
      else round_carry p (sgn m) (e + k) (\<bar>m\<bar> div 2 ^ nat k)
             (2 ^ nat (k - 1) < \<bar>m\<bar> mod 2 ^ nat k \<or>
              (\<bar>m\<bar> mod 2 ^ nat k = 2 ^ nat (k - 1) \<and> (inexact \<or> odd (\<bar>m\<bar> div 2 ^ nat k)))))"

definition round_nearest_even :: "nat \<Rightarrow> int \<Rightarrow> int \<Rightarrow> bool \<Rightarrow> int \<times> int" where
  "round_nearest_even p m e inexact =
     (if m = 0 then (0, 0) else round_shift p m e inexact (int (bitlen \<bar>m\<bar>) - int p))"

definition in_range :: "nat \<Rightarrow> int \<Rightarrow> int \<times> int \<Rightarrow> ieee" where
  "in_range p emax x =
     (case x of (m, e) \<Rightarrow>
        if m = 0 then Some (0, 0)
        else if 1 - emax \<le> e + int p - 1 \<and> e + int p - 1 \<le> emax then Some (m, e)
        else None)"

definition ieee_round :: "nat \<Rightarrow> int \<Rightarrow> int \<Rightarrow> int \<Rightarrow> bool \<Rightarrow> ieee" where
  "ieee_round p emax m e inexact = in_range p emax (round_nearest_even p m e inexact)"

definition quotient_shift :: "nat \<Rightarrow> int \<Rightarrow> int \<Rightarrow> int \<Rightarrow> int \<Rightarrow> nat \<Rightarrow> ieee" where
  "quotient_shift p emax n d e s =
     ieee_round p emax (sgn n * sgn d * (\<bar>n\<bar> * 2 ^ s div \<bar>d\<bar>)) (e - int s)
       (\<bar>n\<bar> * 2 ^ s mod \<bar>d\<bar> \<noteq> 0)"

definition ieee_quotient :: "nat \<Rightarrow> int \<Rightarrow> int \<Rightarrow> int \<Rightarrow> int \<Rightarrow> ieee" where
  "ieee_quotient p emax n d e =
     (if d = 0 then None else quotient_shift p emax n d e (p + 3 + bitlen \<bar>d\<bar>))"

definition ieee_add :: "nat \<Rightarrow> int \<Rightarrow> ieee \<Rightarrow> ieee \<Rightarrow> ieee" where
  "ieee_add p emax x y =
     (case (x, y) of
        (Some (m1, e1), Some (m2, e2)) \<Rightarrow>
          ieee_round p emax (m1 * 2 ^ nat (e1 - min e1 e2) + m2 * 2 ^ nat (e2 - min e1 e2)) (min e1 e2) False
      | _ \<Rightarrow> None)"

definition ieee_neg :: "ieee \<Rightarrow> ieee" where
  "ieee_neg x = (case x of Some (m, e) \<Rightarrow> Some (- m, e) | None \<Rightarrow> None)"

definition ieee_mul :: "nat \<Rightarrow> int \<Rightarrow> ieee \<Rightarrow> ieee \<Rightarrow> ieee" where
  "ieee_mul p emax x y =
     (case (x, y) of
        (Some (m1, e1), Some (m2, e2)) \<Rightarrow> ieee_round p emax (m1 * m2) (e1 + e2) False
      | _ \<Rightarrow> None)"

definition ieee_div :: "nat \<Rightarrow> int \<Rightarrow> ieee \<Rightarrow> ieee \<Rightarrow> ieee" where
  "ieee_div p emax x y =
     (case (x, y) of
        (Some (m1, e1), Some (m2, e2)) \<Rightarrow> ieee_quotient p emax m1 m2 (e1 - e2)
      | _ \<Rightarrow> None)"

definition ieee_less :: "ieee \<Rightarrow> ieee \<Rightarrow> bool" where
  "ieee_less x y =
     (case (x, y) of
        (Some (m1, e1), Some (m2, e2)) \<Rightarrow>
          m1 * 2 ^ nat (e1 - min e1 e2) < m2 * 2 ^ nat (e2 - min e1 e2)
      | _ \<Rightarrow> False)"

text \<open>Conversion to \<open>pi_uint\<close> drops the fraction; the result must fit 64 bits.\<close>

definition u64_of_int :: "int \<Rightarrow> u64 option" where
  "u64_of_int t = (if 0 \<le> t \<and> t < 2 ^ 64 then Some (word_of_int t) else None)"

definition ieee_to_u64 :: "ieee \<Rightarrow> u64 option" where
  "ieee_to_u64 x =
     (case x of
        None \<Rightarrow> None
      | Some (m, e) \<Rightarrow>
          u64_of_int (if 0 \<le> e then m * 2 ^ nat e else sgn m * (\<bar>m\<bar> div 2 ^ nat (- e))))"

definition ieee_double :: "ieee fpu" where
  "ieee_double =
     \<lparr>f_dec = (\<lambda>n k. ieee_quotient 53 1023 n (10 ^ k) 0),
      f_of_u64 = (\<lambda>w. ieee_round 53 1023 (uint w) 0 False),
      f_of_long = (\<lambda>i. ieee_round 53 1023 i 0 False),
      f_to_u64 = ieee_to_u64,
      f_add = ieee_add 53 1023,
      f_sub = (\<lambda>x y. ieee_add 53 1023 x (ieee_neg y)),
      f_mul = ieee_mul 53 1023,
      f_div = ieee_div 53 1023,
      f_neg = ieee_neg\<rparr>"

text \<open>
  \<open>sqrt\<close> is correctly rounded, as IEEE 754 requires. \<open>pow\<close> is given for exponents that
  are non-negative whole numbers, as the correctly rounded power.
\<close>

definition isqrt_step :: "int \<Rightarrow> int \<Rightarrow> int" where
  "isqrt_step n r = (if (r + 1) * (r + 1) \<le> n then r + 1 else r)"

function isqrt :: "int \<Rightarrow> int" where
  "isqrt n = (if n \<le> 0 then 0 else isqrt_step n (2 * isqrt (n div 4)))"
  by pat_completeness auto
termination
  by (relation "measure nat") auto

declare isqrt.simps [simp del]

definition sqrt_round :: "int \<Rightarrow> int \<Rightarrow> int \<Rightarrow> ieee" where
  "sqrt_round big e s = ieee_round 53 1023 s e (s * s \<noteq> big)"

definition ieee_sqrt :: "ieee \<Rightarrow> ieee" where
  "ieee_sqrt x =
     (case x of
        None \<Rightarrow> None
      | Some (m, e) \<Rightarrow>
          if m < 0 then None
          else if even e then sqrt_round (m * 2 ^ 112) (e div 2 - 56) (isqrt (m * 2 ^ 112))
          else sqrt_round (m * 2 ^ 113) ((e - 1) div 2 - 56) (isqrt (m * 2 ^ 113)))"

definition ieee_pow :: "ieee \<Rightarrow> ieee \<Rightarrow> ieee" where
  "ieee_pow x y =
     (case (x, y) of
        (Some (m, e), Some (n, k)) \<Rightarrow>
          if n < 0 then None
          else if 0 \<le> k then ieee_round 53 1023 (m ^ nat (n * 2 ^ nat k)) (e * (n * 2 ^ nat k)) False
          else if n mod 2 ^ nat (- k) = 0
          then ieee_round 53 1023 (m ^ nat (n div 2 ^ nat (- k))) (e * (n div 2 ^ nat (- k))) False
          else None
      | _ \<Rightarrow> None)"

definition ieee_libm :: "ieee libm" where
  "ieee_libm = \<lparr>m_sqrt = ieee_sqrt, m_pow = ieee_pow\<rparr>"

text \<open>\<open>float\<close> with the value \<open>2147483647\<close> that the GNU C library gives \<open>RAND_MAX\<close>.\<close>

definition ieee_float :: "ieee fpu32" where
  "ieee_float =
     \<lparr>RAND_MAX = 2147483647,
      s_of_unsigned = (\<lambda>w. ieee_round 24 127 (uint w) 0 False),
      s_of_int = (\<lambda>i. ieee_round 24 127 i 0 False),
      s_add = ieee_add 24 127,
      s_mul = ieee_mul 24 127,
      s_div = ieee_div 24 127,
      s_less_dec = (\<lambda>x n k. ieee_less x (ieee_quotient 53 1023 n (10 ^ k) 0))\<rparr>"

subsection \<open>Exact rational arithmetic\<close>

definition exact_to_u64 :: "rat \<Rightarrow> u64 option" where
  "exact_to_u64 x = u64_of_int (if 0 \<le> x then \<lfloor>x\<rfloor> else \<lceil>x\<rceil>)"

definition exact :: "rat fpu" where
  "exact =
     \<lparr>f_dec = (\<lambda>n k. of_int n / 10 ^ k),
      f_of_u64 = (\<lambda>w. of_int (uint w)),
      f_of_long = of_int,
      f_to_u64 = exact_to_u64,
      f_add = (+),
      f_sub = (-),
      f_mul = (*),
      f_div = (/),
      f_neg = uminus\<rparr>"

text \<open>The laws of a commutative ring that the combination of two results relies on.\<close>

definition ring_laws :: "'f fpu \<Rightarrow> bool" where
  "ring_laws ops =
     ((\<forall>x y z. f_mul ops (f_mul ops x y) z = f_mul ops x (f_mul ops y z)) \<and>
      (\<forall>x y. f_mul ops x y = f_mul ops y x) \<and>
      (\<forall>x y z. f_add ops (f_add ops x y) z = f_add ops x (f_add ops y z)) \<and>
      (\<forall>x y z. f_mul ops x (f_add ops y z) = f_add ops (f_mul ops x y) (f_mul ops x z)))"

section \<open>Evaluation rules\<close>

lemma bitlen_pos: "0 < n \<Longrightarrow> n < 2 ^ 64 \<Longrightarrow> bitlen n = Suc (bitlen (n div 2))"
  by (simp add: bitlen.simps)

lemma bitlen_large: "2 ^ 64 \<le> n \<Longrightarrow> bitlen n = 64 + bitlen (n div 2 ^ 64)"
  by (subst bitlen.simps) simp

lemma bitlen_nonpos: "n \<le> 0 \<Longrightarrow> bitlen n = 0"
  by (simp add: bitlen.simps)

lemma isqrt_pos: "0 < n \<Longrightarrow> isqrt n = isqrt_step n (2 * isqrt (n div 4))"
  by (simp add: isqrt.simps)

lemma isqrt_nonpos: "n \<le> 0 \<Longrightarrow> isqrt n = 0"
  by (simp add: isqrt.simps)

lemma ieee_double_sel:
  "f_dec ieee_double n k = ieee_quotient 53 1023 n (10 ^ k) 0"
  "f_of_u64 ieee_double w = ieee_round 53 1023 (uint w) 0 False"
  "f_of_long ieee_double i = ieee_round 53 1023 i 0 False"
  "f_to_u64 ieee_double = ieee_to_u64"
  "f_add ieee_double = ieee_add 53 1023"
  "f_sub ieee_double x y = ieee_add 53 1023 x (ieee_neg y)"
  "f_mul ieee_double = ieee_mul 53 1023"
  "f_div ieee_double = ieee_div 53 1023"
  "f_neg ieee_double = ieee_neg"
  by (simp_all add: ieee_double_def)

lemma ieee_libm_sel:
  "m_sqrt ieee_libm = ieee_sqrt"
  "m_pow ieee_libm = ieee_pow"
  by (simp_all add: ieee_libm_def)

lemma ieee_float_sel:
  "RAND_MAX ieee_float = 2147483647"
  "s_of_unsigned ieee_float w = ieee_round 24 127 (uint w) 0 False"
  "s_of_int ieee_float i = ieee_round 24 127 i 0 False"
  "s_add ieee_float = ieee_add 24 127"
  "s_mul ieee_float = ieee_mul 24 127"
  "s_div ieee_float = ieee_div 24 127"
  "s_less_dec ieee_float x n k = ieee_less x (ieee_quotient 53 1023 n (10 ^ k) 0)"
  by (simp_all add: ieee_float_def)

lemmas ieee_eval =
  round_carry_def round_shift_def round_nearest_even_def in_range_def ieee_round_def
  quotient_shift_def ieee_quotient_def ieee_add_def ieee_neg_def ieee_mul_def ieee_div_def
  ieee_less_def u64_of_int_def ieee_to_u64_def sqrt_round_def ieee_sqrt_def ieee_pow_def
  isqrt_pos isqrt_nonpos isqrt_step_def bitlen_pos bitlen_large bitlen_nonpos
  ieee_double_sel ieee_libm_sel ieee_float_sel

section \<open>The thousands separator\<close>

lemma filter_absent: "c \<notin> set xs \<Longrightarrow> filter (\<lambda>x. x \<noteq> c) xs = xs"
  by (induction xs) auto

lemma separator_layout_short:
  assumes "c \<notin> set xs" "0 < length xs" "length xs \<le> 3"
  shows "length xs mod 4 \<noteq> 0"
    and "\<forall>i < length xs. (xs ! i = c) = ((length xs - i) mod 4 = 0)"
proof -
  from assms show "length xs mod 4 \<noteq> 0" by simp
  show "\<forall>i < length xs. (xs ! i = c) = ((length xs - i) mod 4 = 0)"
  proof (intro allI impI)
    fix i assume i: "i < length xs"
    then have "xs ! i \<in> set xs" by simp
    with assms(1) have "xs ! i \<noteq> c" by blast
    moreover from i assms(3) have "0 < length xs - i" "length xs - i < 4" by simp_all
    then have "(length xs - i) mod 4 \<noteq> 0" by simp
    ultimately show "(xs ! i = c) = ((length xs - i) mod 4 = 0)" by simp
  qed
qed

lemma separator_layout_append:
  assumes h: "\<forall>i < length h. (h ! i = c) = ((length h - i) mod 4 = 0)"
    and hl: "length h mod 4 \<noteq> 0"
    and t: "length t = 3" "c \<notin> set t"
  shows "length (h @ c # t) mod 4 \<noteq> 0"
    and "\<forall>i < length (h @ c # t). ((h @ c # t) ! i = c) = ((length (h @ c # t) - i) mod 4 = 0)"
proof -
  have len: "length (h @ c # t) = length h + 4"
    using t(1) by simp
  from hl have "(length h + 4) mod 4 \<noteq> 0" by simp
  then show "length (h @ c # t) mod 4 \<noteq> 0"
    unfolding len .
  have "((h @ c # t) ! i = c) = ((length h + 4 - i) mod 4 = 0)" if i: "i < length h + 4" for i
  proof -
    consider (head) "i < length h" | (sep) "i = length h" | (tail) "length h < i"
      by linarith
    then show ?thesis
    proof cases
      case head
      then obtain k where k: "length h = i + k"
        using less_imp_add_positive by metis
      then have "length h - i = k" "length h + 4 - i = k + 4" by simp_all
      then have "(length h + 4 - i) mod 4 = (length h - i) mod 4" by simp
      moreover from head have "(h @ c # t) ! i = h ! i" by (simp add: nth_append)
      moreover from h head have "(h ! i = c) = ((length h - i) mod 4 = 0)" by simp
      ultimately show ?thesis by simp
    next
      case sep
      then show ?thesis by simp
    next
      case tail
      then obtain k where k: "i = Suc (length h + k)"
        using less_imp_Suc_add by blast
      with i have k3: "k < 3" by linarith
      with t(1) have "t ! k \<in> set t" by simp
      with t(2) have "t ! k \<noteq> c" by blast
      moreover have "(h @ c # t) ! i = t ! k"
        by (simp add: k nth_append)
      moreover have "length h + 4 - i = 3 - k"
        by (simp add: k)
      moreover from k3 have "(3 - k) mod 4 \<noteq> 0" by simp
      ultimately show ?thesis by simp
    qed
  qed
  then show "\<forall>i < length (h @ c # t). ((h @ c # t) ! i = c) = ((length (h @ c # t) - i) mod 4 = 0)"
    unfolding len by blast
qed

lemma digits10_small: "n < 10 \<Longrightarrow> digits10 n = [digit_char n]"
  by (simp add: digits10.simps)

lemma digits10_big: "10 \<le> n \<Longrightarrow> digits10 n = digits10 (n div 10) @ [digit_char (n mod 10)]"
  by (subst digits10.simps) simp

lemma replicate_small: "replicate 2 x = [x, x]" "replicate 1 x = [x]"
  by (simp_all add: numeral_2_eq_2)

lemmas libc_eval = strtol_def strtoul_def strtol_parse_def isspace_def isdigit_def digit_value_def
  LONG_MAX_def LONG_MIN_def digits10_small digits10_big digit_char_def printf_ld_def printf_03ld_def
  printf_lu_def replicate_small

lemma print_thousands_small: "terms < 1000 \<Longrightarrow> print_thousands_sepd_num terms = printf_ld terms"
  by (simp add: print_thousands_sepd_num.simps)

lemma print_thousands_big: "1000 \<le> terms \<Longrightarrow> print_thousands_sepd_num terms =
   print_thousands_sepd_num (terms div 1000) @ CHR '','' # printf_03ld (terms mod 1000)"
  by (subst print_thousands_sepd_num.simps) simp

lemma digit_char_not_comma: "d < 10 \<Longrightarrow> digit_char d \<noteq> CHR '',''"
proof -
  assume "d < 10"
  then have "d = 0 \<or> d = 1 \<or> d = 2 \<or> d = 3 \<or> d = 4 \<or> d = 5 \<or> d = 6 \<or> d = 7 \<or> d = 8 \<or> d = 9"
    by arith
  then show ?thesis
    by (auto simp add: digit_char_def)
qed

lemma digits10_no_comma: "CHR '','' \<notin> set (digits10 n)"
proof (induction n rule: digits10.induct)
  case (1 n)
  show ?case
  proof (cases "n < 10")
    case True
    then show ?thesis
      using digit_char_not_comma [of n] by (simp add: digits10_small)
  next
    case False
    then show ?thesis
      using 1 digit_char_not_comma [of "n mod 10"] by (simp add: digits10_big)
  qed
qed

lemma digits10_length_pos: "0 < length (digits10 n)"
  by (subst digits10.simps) simp

lemma digits10_length_le3: "n < 1000 \<Longrightarrow> length (digits10 n) \<le> 3"
proof -
  assume n: "n < 1000"
  have a: "length (digits10 m) = 1" if "m < 10" for m
    using that by (simp add: digits10_small)
  have b: "length (digits10 m) \<le> 2" if "m < 100" for m
  proof (cases "m < 10")
    case True
    then show ?thesis by (simp add: a)
  next
    case False
    with that have "m div 10 < 10" by simp
    with False show ?thesis by (simp add: digits10_big a)
  qed
  show ?thesis
  proof (cases "n < 10")
    case True
    then show ?thesis by (simp add: a)
  next
    case False
    with n have "n div 10 < 100" by simp
    with False b [of "n div 10"] show ?thesis by (simp add: digits10_big)
  qed
qed

text \<open>The last three digits of a number of at least four digits are what \<open>%03ld\<close> prints.\<close>

lemma printf_03ld_digits:
  assumes "0 \<le> m" "m < 1000"
  shows "printf_03ld m =
    [digit_char (nat m div 100), digit_char (nat m div 10 mod 10), digit_char (nat m mod 10)]"
proof -
  let ?k = "nat m"
  from assms have k: "?k < 1000" by simp
  consider "?k < 10" | "10 \<le> ?k" "?k < 100" | "100 \<le> ?k"
    by linarith
  then have "replicate (3 - length (digits10 ?k)) CHR ''0'' @ digits10 ?k =
    [digit_char (?k div 100), digit_char (?k div 10 mod 10), digit_char (?k mod 10)]"
  proof cases
    case 1
    then show ?thesis
      by (simp add: digits10_small replicate_small digit_char_def)
  next
    case 2
    then have "?k div 10 < 10" "?k div 100 = 0" by simp_all
    with 2 show ?thesis
      by (simp add: digits10_small digits10_big [of ?k] replicate_small digit_char_def)
  next
    case 3
    with k have "10 \<le> ?k" "10 \<le> ?k div 10" "?k div 10 div 10 < 10" by simp_all
    moreover have "?k div 10 div 10 = ?k div 100"
      by (simp add: div_mult2_eq [symmetric])
    ultimately show ?thesis
      by (simp add: digits10_small digits10_big [of ?k] digits10_big [of "?k div 10"])
  qed
  with assms show ?thesis
    by (simp add: printf_03ld_def)
qed

lemma mod_1000_digits:
  fixes n :: nat
  shows "n mod 1000 div 100 = n div 100 mod 10"
    and "n mod 1000 div 10 mod 10 = n div 10 mod 10"
    and "n mod 1000 mod 10 = n mod 10"
proof -
  show "n mod 1000 div 100 = n div 100 mod 10"
    using mod_mult2_eq [of n 100 10] by simp
  have "n mod 1000 div 10 = n div 10 mod 100"
    using mod_mult2_eq [of n 10 100] by simp
  then show "n mod 1000 div 10 mod 10 = n div 10 mod 10"
    by (simp add: mod_mod_cancel)
  show "n mod 1000 mod 10 = n mod 10"
    by (simp add: mod_mod_cancel)
qed

lemma digits10_split3:
  assumes "1000 \<le> n"
  shows "digits10 n = digits10 (n div 1000) @
    [digit_char (n mod 1000 div 100), digit_char (n mod 1000 div 10 mod 10), digit_char (n mod 1000 mod 10)]"
proof -
  from assms have "10 \<le> n" "10 \<le> n div 10" "10 \<le> n div 10 div 10" by simp_all
  then have "digits10 n = digits10 (n div 10 div 10 div 10) @
      [digit_char (n div 10 div 10 mod 10), digit_char (n div 10 mod 10), digit_char (n mod 10)]"
    by (simp add: digits10_big [of n] digits10_big [of "n div 10"] digits10_big [of "n div 10 div 10"])
  moreover have "n div 10 div 10 div 10 = n div 1000" "n div 10 div 10 = n div 100"
    by (simp_all add: div_mult2_eq [symmetric])
  ultimately show ?thesis
    by (simp add: mod_1000_digits)
qed

lemma printf_ld_split3:
  assumes "1000 \<le> n"
  shows "printf_ld n = printf_ld (n div 1000) @ printf_03ld (n mod 1000)"
proof -
  from assms have div_mod: "nat n div 1000 = nat (n div 1000)" "nat n mod 1000 = nat (n mod 1000)"
    by (simp_all add: nat_div_distrib nat_mod_distrib)
  from assms have sign: "\<not> n < 0" "\<not> n div 1000 < 0"
    by simp_all
  from assms have "0 \<le> n mod 1000" "n mod 1000 < 1000"
    by simp_all
  then have last3: "printf_03ld (n mod 1000) =
      [digit_char (nat (n mod 1000) div 100), digit_char (nat (n mod 1000) div 10 mod 10),
       digit_char (nat (n mod 1000) mod 10)]"
    by (rule printf_03ld_digits)
  from assms have "1000 \<le> nat n" by simp
  then have "digits10 (nat n) = digits10 (nat n div 1000) @
      [digit_char (nat n mod 1000 div 100), digit_char (nat n mod 1000 div 10 mod 10),
       digit_char (nat n mod 1000 mod 10)]"
    by (rule digits10_split3)
  then have "digits10 (nat n) = digits10 (nat (n div 1000)) @ printf_03ld (n mod 1000)"
    by (simp only: div_mod last3)
  moreover from sign have "printf_ld n = digits10 (nat n)"
    "printf_ld (n div 1000) = digits10 (nat (n div 1000))"
    by (simp_all only: printf_ld_def if_False)
  ultimately show ?thesis
    by (simp only:)
qed

lemma printf_03ld_shape:
  assumes "0 \<le> m" "m < 1000"
  shows "length (printf_03ld m) = 3" and "CHR '','' \<notin> set (printf_03ld m)"
proof -
  from assms have "nat m div 100 < 10" "nat m div 10 mod 10 < 10" "nat m mod 10 < 10"
    by simp_all
  then have "digit_char (nat m div 100) \<noteq> CHR '',''" "digit_char (nat m div 10 mod 10) \<noteq> CHR '',''"
    "digit_char (nat m mod 10) \<noteq> CHR '',''"
    by (simp_all add: digit_char_not_comma)
  then show "CHR '','' \<notin> set (printf_03ld m)"
    using assms by (auto simp add: printf_03ld_digits)
  show "length (printf_03ld m) = 3"
    using assms by (simp add: printf_03ld_digits)
qed

lemma print_thousands_layout:
  assumes "0 \<le> n"
  shows "filter (\<lambda>c. c \<noteq> CHR '','') (print_thousands_sepd_num n) = printf_ld n \<and>
    length (print_thousands_sepd_num n) mod 4 \<noteq> 0 \<and>
    (\<forall>i < length (print_thousands_sepd_num n).
       (print_thousands_sepd_num n ! i = CHR '','') = ((length (print_thousands_sepd_num n) - i) mod 4 = 0))"
  using assms
proof (induction n rule: print_thousands_sepd_num.induct)
  case (1 n)
  show ?case
  proof (cases "1000 \<le> n")
    case False
    with 1 have n: "0 \<le> n" "n < 1000" by simp_all
    then have out: "print_thousands_sepd_num n = digits10 (nat n)"
      by (simp add: print_thousands_small printf_ld_def)
    have no: "CHR '','' \<notin> set (digits10 (nat n))"
      by (rule digits10_no_comma)
    from n have len: "0 < length (digits10 (nat n))" "length (digits10 (nat n)) \<le> 3"
      using digits10_length_pos digits10_length_le3 [of "nat n"] by simp_all
    from n have "printf_ld n = digits10 (nat n)"
      by (simp add: printf_ld_def)
    then show ?thesis
      unfolding out
      using filter_absent [OF no] separator_layout_short [OF no len] by simp
  next
    case True
    let ?h = "print_thousands_sepd_num (n div 1000)"
    let ?t = "printf_03ld (n mod 1000)"
    from True have out: "print_thousands_sepd_num n = ?h @ CHR '','' # ?t"
      by (rule print_thousands_big)
    from True have "0 \<le> n div 1000" by simp
    with 1 True have ih: "filter (\<lambda>c. c \<noteq> CHR '','') ?h = printf_ld (n div 1000)"
      "length ?h mod 4 \<noteq> 0"
      "\<forall>i < length ?h. (?h ! i = CHR '','') = ((length ?h - i) mod 4 = 0)"
      by simp_all
    have t: "length ?t = 3" "CHR '','' \<notin> set ?t"
      using printf_03ld_shape [of "n mod 1000"] by simp_all
    have "filter (\<lambda>c. c \<noteq> CHR '','') (?h @ CHR '','' # ?t) = printf_ld n"
      using ih(1) filter_absent [OF t(2)] printf_ld_split3 [OF True] by simp
    then show ?thesis
      unfolding out
      using separator_layout_append [OF ih(3) ih(2) t] by simp
  qed
qed

text \<open>
  Claim C7. The formatter prints \<open>0\<close>, \<open>999\<close>, \<open>1,000\<close> and \<open>1,234,567\<close> for these four
  numbers. For every non-negative number the output without its commas is the decimal
  numeral that \<open>%ld\<close> prints, the output does not begin with a comma, and a character is
  a comma exactly when its distance from the end of the output is a multiple of four:
  the digits stand in groups of three counted from the right, with one comma between
  neighbouring groups.
\<close>

theorem print_thousands_sepd_num_groups:
  "print_thousands_sepd_num 0 = ''0'' \<and>
   print_thousands_sepd_num 999 = ''999'' \<and>
   print_thousands_sepd_num 1000 = ''1,000'' \<and>
   print_thousands_sepd_num 1234567 = ''1,234,567'' \<and>
   (\<forall>n \<ge> 0.
      filter (\<lambda>c. c \<noteq> CHR '','') (print_thousands_sepd_num n) = printf_ld n \<and>
      length (print_thousands_sepd_num n) mod 4 \<noteq> 0 \<and>
      (\<forall>i < length (print_thousands_sepd_num n).
         (print_thousands_sepd_num n ! i = CHR '','') =
         ((length (print_thousands_sepd_num n) - i) mod 4 = 0)))"
proof (intro conjI allI impI)
  show "print_thousands_sepd_num 0 = ''0''"
    by (simp add: print_thousands_small libc_eval)
  show "print_thousands_sepd_num 999 = ''999''"
    by (simp add: print_thousands_small libc_eval)
  show "print_thousands_sepd_num 1000 = ''1,000''"
    by (simp add: print_thousands_small print_thousands_big libc_eval)
  show "print_thousands_sepd_num 1234567 = ''1,234,567''"
    by (simp add: print_thousands_small print_thousands_big libc_eval)
next
  fix n :: int assume "0 \<le> n"
  then show "filter (\<lambda>c. c \<noteq> CHR '','') (print_thousands_sepd_num n) = printf_ld n"
    by (simp add: print_thousands_layout)
next
  fix n :: int assume "0 \<le> n"
  then show "length (print_thousands_sepd_num n) mod 4 \<noteq> 0"
    by (simp add: print_thousands_layout)
next
  fix n :: int and i assume n: "0 \<le> n" and i: "i < length (print_thousands_sepd_num n)"
  from print_thousands_layout [OF n] i
  show "(print_thousands_sepd_num n ! i = CHR '','') =
      ((length (print_thousands_sepd_num n) - i) mod 4 = 0)"
    by simp
qed

theorem print_thousands_sepd_num_groups_witness:
  "(0 :: int) \<le> 1234567 \<and> (5 :: nat) < length (print_thousands_sepd_num 1234567) \<and>
   filter (\<lambda>c. c \<noteq> CHR '','') (print_thousands_sepd_num 1234567) = ''1234567'' \<and>
   print_thousands_sepd_num 1234567 ! 5 = CHR '',''"
proof -
  have out: "print_thousands_sepd_num 1234567 = ''1,234,567''"
    by (simp add: print_thousands_small print_thousands_big libc_eval)
  have "printf_ld 1234567 = ''1234567''"
    by (simp add: libc_eval)
  moreover have "(5 :: nat) < length (print_thousands_sepd_num 1234567)"
    by (simp add: out)
  moreover have "(length (print_thousands_sepd_num 1234567) - 5) mod 4 = 0"
    by (simp add: out)
  ultimately show ?thesis
    using print_thousands_sepd_num_groups by simp
qed

section \<open>The loops of the five series\<close>

lemma LOOP_TERMS_last:
  "LONG_MIN < terms \<Longrightarrow> terms = 1 \<Longrightarrow> LOOP_TERMS expr terms (s, n) = Inr (expr s, Suc n)"
  by (simp add: LOOP_TERMS.simps)

lemma LOOP_TERMS_next:
  "LONG_MIN < terms \<Longrightarrow> terms \<noteq> 1 \<Longrightarrow>
   LOOP_TERMS expr terms (s, n) = LOOP_TERMS expr (terms - 1) (expr s, Suc n)"
  by (subst LOOP_TERMS.simps) simp

lemma LOOP_TERMS_iterates:
  "k = nat N \<Longrightarrow> 1 \<le> N \<Longrightarrow> LOOP_TERMS expr N (s, n) = Inr ((expr ^^ k) s, n + k)"
proof (induction k arbitrary: N s n)
  case 0
  then show ?case by simp
next
  case (Suc k)
  then have N: "LONG_MIN < N"
    by (simp add: LONG_MIN_def)
  show ?case
  proof (cases "N = 1")
    case True
    with Suc.prems have "k = 0" by simp
    with True N show ?thesis
      by (simp add: LOOP_TERMS_last)
  next
    case False
    with Suc.prems have "k = nat (N - 1)" "1 \<le> N - 1" by simp_all
    then have "LOOP_TERMS expr (N - 1) (expr s, Suc n) = Inr ((expr ^^ k) (expr s), Suc n + k)"
      by (rule Suc.IH)
    with False N show ?thesis
      by (simp add: LOOP_TERMS_next funpow_swap1)
  qed
qed

lemma LOOP_TERMS_count:
  "1 \<le> N \<Longrightarrow> LOOP_TERMS expr N (s, 0) = Inr ((expr ^^ nat N) s, nat N)"
  using LOOP_TERMS_iterates [of "nat N" N expr s 0] by simp

text \<open>
  Claim C6. For every iteration count \<open>N \<ge> 1\<close>, the loop of each of \<open>wallis_product\<close>,
  \<open>vietes_formula\<close>, \<open>nilakantha\<close>, \<open>madhava_leibniz_formula\<close> and \<open>newton_arctan_pi\<close>
  comes to an end after exactly \<open>N\<close> executions of its body (the state it leaves is the
  \<open>N\<close>-fold application of the body to the initial values), and the function returns a
  value.
\<close>

theorem series_loops_run_N_times:
  assumes "1 \<le> N"
  shows
    "LOOP_TERMS (wallis_body ops) N ((f_dec ops 1 0, f_dec ops 0 0, f_dec ops 1 0), 0) =
       Inr ((wallis_body ops ^^ nat N) (f_dec ops 1 0, f_dec ops 0 0, f_dec ops 1 0), nat N) \<and>
     (\<exists>r. wallis_product ops N = Inr r) \<and>
     LOOP_TERMS (vietes_body ops lm) N ((f_dec ops 1 0, f_dec ops 0 0), 0) =
       Inr ((vietes_body ops lm ^^ nat N) (f_dec ops 1 0, f_dec ops 0 0), nat N) \<and>
     (\<exists>r. vietes_formula ops lm N = Inr r) \<and>
     LOOP_TERMS (nilakantha_body ops) N
         ((f_dec ops 3 0, f_dec ops 2 0, f_neg ops (f_dec ops 1 0), f_dec ops 0 0), 0) =
       Inr ((nilakantha_body ops ^^ nat N)
              (f_dec ops 3 0, f_dec ops 2 0, f_neg ops (f_dec ops 1 0), f_dec ops 0 0), nat N) \<and>
     (\<exists>r. nilakantha ops N = Inr r) \<and>
     LOOP_TERMS (madhava_leibniz_body ops) N ((f_dec ops 1 0, f_dec ops 1 0, f_dec ops 1 0), 0) =
       Inr ((madhava_leibniz_body ops ^^ nat N) (f_dec ops 1 0, f_dec ops 1 0, f_dec ops 1 0), nat N) \<and>
     (\<exists>r. madhava_leibniz_formula ops N = Inr r) \<and>
     LOOP_TERMS (newton_arctan_body ops) N
         ((f_dec ops 5 1, f_dec ops 0 0, f_dec ops 1 0, f_dec ops 1 0, f_dec ops 2 0), 0) =
       Inr ((newton_arctan_body ops ^^ nat N)
              (f_dec ops 5 1, f_dec ops 0 0, f_dec ops 1 0, f_dec ops 1 0, f_dec ops 2 0), nat N) \<and>
     (\<exists>r. newton_arctan_pi ops N = Inr r)"
  using assms
  by (simp add: LOOP_TERMS_count wallis_product_def vietes_formula_def nilakantha_def
      madhava_leibniz_formula_def newton_arctan_pi_def split: prod.splits)

theorem series_loops_run_N_times_witness:
  "(1 :: int) \<le> 3 \<and>
   map_sum id snd (LOOP_TERMS (wallis_body ieee_double) 3
     ((f_dec ieee_double 1 0, f_dec ieee_double 0 0, f_dec ieee_double 1 0), 0)) = Inr 3 \<and>
   map_sum id snd (LOOP_TERMS (vietes_body ieee_double ieee_libm) 3
     ((f_dec ieee_double 1 0, f_dec ieee_double 0 0), 0)) = Inr 3 \<and>
   map_sum id snd (LOOP_TERMS (nilakantha_body ieee_double) 3
     ((f_dec ieee_double 3 0, f_dec ieee_double 2 0, f_neg ieee_double (f_dec ieee_double 1 0),
       f_dec ieee_double 0 0), 0)) = Inr 3 \<and>
   map_sum id snd (LOOP_TERMS (madhava_leibniz_body ieee_double) 3
     ((f_dec ieee_double 1 0, f_dec ieee_double 1 0, f_dec ieee_double 1 0), 0)) = Inr 3 \<and>
   map_sum id snd (LOOP_TERMS (newton_arctan_body ieee_double) 3
     ((f_dec ieee_double 5 1, f_dec ieee_double 0 0, f_dec ieee_double 1 0, f_dec ieee_double 1 0,
       f_dec ieee_double 2 0), 0)) = Inr 3"
  using series_loops_run_N_times [of 3 ieee_double ieee_libm]
  by simp

section \<open>The selector of the series program\<close>

lemma upt_5: "[0 ..< 5] = [0, 1, 2, 3, 4]"
  by (simp add: upt_rec)

text \<open>
  Claim C10. With three arguments on the command line, a first argument that begins with
  \<open>a\<close> is the choice of all series: the program never answers it with
  \<open>Invalid series option.\<close>, and when the term count is positive and the five payloads
  can be allocated it creates one thread for each of the five series, in order, with the
  term count, and joins the five. Only a first argument that does not begin with \<open>a\<close>
  is read as a number: outside \<open>1 .. 5\<close> it is rejected, inside it selects the series
  with that 1-based index.
\<close>

theorem series_selector:
  assumes "length argv = 3"
  shows
    "(argv ! 1 \<noteq> [] \<and> hd (argv ! 1) = CHR ''a'' \<longrightarrow>
        main_infseries ops lm malloc_ok argv \<noteq>
          Inr (EXIT_FAILURE, [Stderr (''Invalid series option.'' @ [newline])]) \<and>
        (0 < strtol (argv ! 2) \<and> list_all malloc_ok [0, 1, 2, 3, 4] \<longrightarrow>
           main_infseries ops lm malloc_ok argv =
             Inr (EXIT_SUCCESS,
                  [Stdout ''Terms: '',
                   Stdout (print_thousands_sepd_num (strtol (argv ! 2))),
                   Stdout ([newline] @ ''Chosen series: All'' @ [newline])]
                  @ map (\<lambda>i. Thread_create i \<lparr>series_index = int i, terms_count = strtol (argv ! 2)\<rparr>)
                      [0, 1, 2, 3, 4]
                  @ map Thread_join [0, 1, 2, 3, 4]))) \<and>
     (\<not> (argv ! 1 \<noteq> [] \<and> hd (argv ! 1) = CHR ''a'') \<and>
      (strtol (argv ! 1) < 1 \<or> 5 < strtol (argv ! 1)) \<longrightarrow>
        main_infseries ops lm malloc_ok argv =
          Inr (EXIT_FAILURE, [Stderr (''Invalid series option.'' @ [newline])])) \<and>
     (\<not> (argv ! 1 \<noteq> [] \<and> hd (argv ! 1) = CHR ''a'') \<and>
      1 \<le> strtol (argv ! 1) \<and> strtol (argv ! 1) \<le> 5 \<and> 0 < strtol (argv ! 2) \<longrightarrow>
        main_infseries ops lm malloc_ok argv =
          (case do_series ops lm (int_of_long (strtol (argv ! 1) - 1)) (int_of_long (strtol (argv ! 2))) of
             Inl e \<Rightarrow> Inl e
           | Inr line \<Rightarrow>
               Inr (EXIT_SUCCESS,
                    [Stdout ''Terms: '',
                     Stdout (print_thousands_sepd_num (strtol (argv ! 2))),
                     Stdout ([newline] @ ''Chosen series: ''
                             @ snd (series_function_data ops lm ! nat (strtol (argv ! 1) - 1))
                             @ [newline]),
                     line])))"
proof (intro conjI impI)
  assume a: "argv ! 1 \<noteq> [] \<and> hd (argv ! 1) = CHR ''a''"
  show "main_infseries ops lm malloc_ok argv \<noteq>
      Inr (EXIT_FAILURE, [Stderr (''Invalid series option.'' @ [newline])])"
    using assms a
    by (simp add: main_infseries_def Let_def EXIT_FAILURE_def EXIT_SUCCESS_def)
next
  assume a: "argv ! 1 \<noteq> [] \<and> hd (argv ! 1) = CHR ''a''"
    and b: "0 < strtol (argv ! 2) \<and> list_all malloc_ok [0, 1, 2, 3, 4]"
  then have "spawn_all ops lm malloc_ok (strtol (argv ! 2)) =
      map (\<lambda>i. Thread_create i \<lparr>series_index = int i, terms_count = strtol (argv ! 2)\<rparr>) [0, 1, 2, 3, 4]"
    by (simp add: spawn_all_def count_series_functions_def upt_5)
  with assms a b show "main_infseries ops lm malloc_ok argv =
      Inr (EXIT_SUCCESS,
           [Stdout ''Terms: '',
            Stdout (print_thousands_sepd_num (strtol (argv ! 2))),
            Stdout ([newline] @ ''Chosen series: All'' @ [newline])]
           @ map (\<lambda>i. Thread_create i \<lparr>series_index = int i, terms_count = strtol (argv ! 2)\<rparr>)
               [0, 1, 2, 3, 4]
           @ map Thread_join [0, 1, 2, 3, 4])"
    by (simp add: main_infseries_def Let_def count_series_functions_def upt_5)
next
  assume "\<not> (argv ! 1 \<noteq> [] \<and> hd (argv ! 1) = CHR ''a'') \<and>
      (strtol (argv ! 1) < 1 \<or> 5 < strtol (argv ! 1))"
  with assms show "main_infseries ops lm malloc_ok argv =
      Inr (EXIT_FAILURE, [Stderr (''Invalid series option.'' @ [newline])])"
    by (auto simp add: main_infseries_def Let_def count_series_functions_def)
next
  assume "\<not> (argv ! 1 \<noteq> [] \<and> hd (argv ! 1) = CHR ''a'') \<and>
      1 \<le> strtol (argv ! 1) \<and> strtol (argv ! 1) \<le> 5 \<and> 0 < strtol (argv ! 2)"
  with assms show "main_infseries ops lm malloc_ok argv =
      (case do_series ops lm (int_of_long (strtol (argv ! 1) - 1)) (int_of_long (strtol (argv ! 2))) of
         Inl e \<Rightarrow> Inl e
       | Inr line \<Rightarrow>
           Inr (EXIT_SUCCESS,
                [Stdout ''Terms: '',
                 Stdout (print_thousands_sepd_num (strtol (argv ! 2))),
                 Stdout ([newline] @ ''Chosen series: ''
                         @ snd (series_function_data ops lm ! nat (strtol (argv ! 1) - 1))
                         @ [newline]),
                 line]))"
    by (auto simp add: main_infseries_def Let_def count_series_functions_def split: sum.splits)
qed

theorem series_selector_witness:
  "length [''pi_infseries'', ''abc'', ''100''] = 3 \<and>
   [''pi_infseries'', ''abc'', ''100''] ! 1 \<noteq> [] \<and>
   hd ([''pi_infseries'', ''abc'', ''100''] ! 1) = CHR ''a'' \<and>
   0 < strtol ([''pi_infseries'', ''abc'', ''100''] ! 2) \<and>
   list_all (\<lambda>i. True) [0 :: nat, 1, 2, 3, 4] \<and>
   main_infseries ieee_double ieee_libm (\<lambda>i. True) [''pi_infseries'', ''abc'', ''100''] =
     Inr (0, [Stdout ''Terms: '', Stdout ''100'', Stdout ([newline] @ ''Chosen series: All'' @ [newline]),
              Thread_create 0 \<lparr>series_index = 0, terms_count = 100\<rparr>,
              Thread_create 1 \<lparr>series_index = 1, terms_count = 100\<rparr>,
              Thread_create 2 \<lparr>series_index = 2, terms_count = 100\<rparr>,
              Thread_create 3 \<lparr>series_index = 3, terms_count = 100\<rparr>,
              Thread_create 4 \<lparr>series_index = 4, terms_count = 100\<rparr>,
              Thread_join 0, Thread_join 1, Thread_join 2, Thread_join 3, Thread_join 4]) \<and>
   5 < strtol ([''pi_infseries'', ''7'', ''100''] ! 1) \<and>
   main_infseries ieee_double ieee_libm (\<lambda>i. True) [''pi_infseries'', ''7'', ''100''] =
     Inr (1, [Stderr (''Invalid series option.'' @ [newline])]) \<and>
   strtol ([''pi_infseries'', ''3'', ''1''] ! 1) = 3 \<and>
   main_infseries ieee_double ieee_libm (\<lambda>i. True) [''pi_infseries'', ''3'', ''1''] =
     Inr (0, [Stdout ''Terms: '', Stdout ''1'',
              Stdout ([newline] @ ''Chosen series: Nilakantha series'' @ [newline]),
              Series_result ''Nilakantha series'' (Some (7130699410003285, - 51))])"
proof -
  have num: "strtol ''100'' = 100" "strtol ''7'' = 7" "strtol ''3'' = 3" "strtol ''1'' = 1"
    by (simp_all add: libc_eval)
  have printed: "print_thousands_sepd_num 100 = ''100''" "print_thousands_sepd_num 1 = ''1''"
    by (simp_all add: print_thousands_small libc_eval)
  have "nilakantha ieee_double 1 = Inr (Some (7130699410003285, - 51))"
    by (simp add: nilakantha_def LOOP_TERMS_last LONG_MIN_def nilakantha_body_def ieee_eval)
  then have run: "do_series ieee_double ieee_libm 2 1 =
      Inr (Series_result ''Nilakantha series'' (Some (7130699410003285, - 51)))"
    by (simp add: do_series_def count_series_functions_def series_function_data_def)
  have name: "snd (series_function_data ieee_double ieee_libm ! 2) = ''Nilakantha series''"
    by (simp add: series_function_data_def)
  have "main_infseries ieee_double ieee_libm (\<lambda>i. True) [''pi_infseries'', ''abc'', ''100''] =
     Inr (0, [Stdout ''Terms: '', Stdout ''100'', Stdout ([newline] @ ''Chosen series: All'' @ [newline]),
              Thread_create 0 \<lparr>series_index = 0, terms_count = 100\<rparr>,
              Thread_create 1 \<lparr>series_index = 1, terms_count = 100\<rparr>,
              Thread_create 2 \<lparr>series_index = 2, terms_count = 100\<rparr>,
              Thread_create 3 \<lparr>series_index = 3, terms_count = 100\<rparr>,
              Thread_create 4 \<lparr>series_index = 4, terms_count = 100\<rparr>,
              Thread_join 0, Thread_join 1, Thread_join 2, Thread_join 3, Thread_join 4])"
    using series_selector [of "[''pi_infseries'', ''abc'', ''100'']" ieee_double ieee_libm "\<lambda>i. True"]
    by (simp add: num printed EXIT_SUCCESS_def)
  moreover have "main_infseries ieee_double ieee_libm (\<lambda>i. True) [''pi_infseries'', ''7'', ''100''] =
     Inr (1, [Stderr (''Invalid series option.'' @ [newline])])"
    using series_selector [of "[''pi_infseries'', ''7'', ''100'']" ieee_double ieee_libm "\<lambda>i. True"]
    by (simp add: num EXIT_FAILURE_def)
  moreover have "main_infseries ieee_double ieee_libm (\<lambda>i. True) [''pi_infseries'', ''3'', ''1''] =
     Inr (0, [Stdout ''Terms: '', Stdout ''1'',
              Stdout ([newline] @ ''Chosen series: Nilakantha series'' @ [newline]),
              Series_result ''Nilakantha series'' (Some (7130699410003285, - 51))])"
    using series_selector [of "[''pi_infseries'', ''3'', ''1'']" ieee_double ieee_libm "\<lambda>i. True"]
    by (simp add: num printed run name int_of_long_def EXIT_SUCCESS_def)
  ultimately show ?thesis
    by (simp add: num)
qed

section \<open>The pseudo-random generator\<close>

lemma fastrand_run_Cons:
  "fastrand_run fo seed (c # calls) \<longleftrightarrow> c = fastrand01 fo seed \<and> fastrand_run fo (snd c) calls"
proof
  assume "fastrand_run fo seed (c # calls)"
  then show "c = fastrand01 fo seed \<and> fastrand_run fo (snd c) calls"
    by cases simp
next
  assume r: "c = fastrand01 fo seed \<and> fastrand_run fo (snd c) calls"
  then have "fastrand01 fo seed = (fst c, snd c)" by simp
  moreover from r have "fastrand_run fo (snd c) calls" by (rule conjunct2)
  ultimately have "fastrand_run fo seed ((fst c, snd c) # calls)"
    by (rule fastrand_run.call)
  then show "fastrand_run fo seed (c # calls)" by simp
qed

lemma fastrand_run_unique:
  "fastrand_run fo seed run1 \<Longrightarrow> fastrand_run fo seed run2 \<Longrightarrow> length run1 = length run2 \<Longrightarrow>
   run1 = run2"
proof (induction run1 arbitrary: seed run2)
  case Nil
  then show ?case by simp
next
  case (Cons c run1)
  then obtain d run2' where run2: "run2 = d # run2'"
    by (cases run2) simp_all
  from Cons.prems(1) have c: "c = fastrand01 fo seed" and r1: "fastrand_run fo (snd c) run1"
    unfolding fastrand_run_Cons by (rule conjunct1, rule conjunct2)
  from Cons.prems(2) have d: "d = fastrand01 fo seed" and r2: "fastrand_run fo (snd d) run2'"
    unfolding run2 fastrand_run_Cons by (rule conjunct1, rule conjunct2)
  from c d have cd: "d = c" by simp
  from Cons.prems(3) have "length run1 = length run2'"
    by (simp add: run2)
  with r1 r2 [unfolded cd] have "run1 = run2'"
    by (rule Cons.IH)
  with cd run2 show ?case by simp
qed

lemma fastrand_run_exists: "\<exists>run. fastrand_run fo seed run \<and> length run = n"
proof (induction n arbitrary: seed)
  case 0
  show ?case
    using fastrand_run.no_call [of fo seed] by simp
next
  case (Suc n)
  from Suc [of "snd (fastrand01 fo seed)"] obtain run
    where "fastrand_run fo (snd (fastrand01 fo seed)) run" "length run = n"
    by blast
  then have "fastrand_run fo seed (fastrand01 fo seed # run) \<and> length (fastrand01 fo seed # run) = Suc n"
    by (simp add: fastrand_run_Cons)
  then show ?case by blast
qed

lemma fastrand_run_calls:
  "fastrand_run fo seed run \<Longrightarrow> i < length run \<Longrightarrow> run ! i = fastrand01 fo (3812762923 ^ i * seed)"
proof (induction run arbitrary: seed i)
  case Nil
  then show ?case by simp
next
  case (Cons c run)
  from Cons.prems(1) have c: "c = fastrand01 fo seed" and rest: "fastrand_run fo (snd c) run"
    unfolding fastrand_run_Cons by (rule conjunct1, rule conjunct2)
  from c have sc: "snd c = 3812762923 * seed"
    by (simp add: fastrand01_def Let_def)
  show ?case
  proof (cases i)
    case 0
    with c show ?thesis by simp
  next
    case (Suc j)
    with Cons.prems have "j < length run" by simp
    with rest have "run ! j = fastrand01 fo (3812762923 ^ j * snd c)"
      by (rule Cons.IH)
    with Suc sc show ?thesis by (simp add: ac_simps)
  qed
qed

text \<open>
  Claim C8. The generator is deterministic: two runs of the same number of calls that
  start from the same seed are the same run, call by call equal in the value returned
  and in the seed stored. The \<open>i\<close>-th call (counted from 0) is the call on the seed
  \<open>3812762923 ^ i * seed\<close>, so a run is a function of the starting seed alone. (Runs of
  every length exist, by \<open>fastrand_run_exists\<close>.)
\<close>

theorem fastrand_reproducible:
  assumes "fastrand_run fo seed run1" and "fastrand_run fo seed run2"
    and "length run1 = length run2"
  shows "run1 = run2 \<and> (\<forall>i < length run1. run1 ! i = fastrand01 fo (3812762923 ^ i * seed))"
  using assms fastrand_run_unique [of fo seed run1 run2] fastrand_run_calls [of fo seed run1]
  by simp

theorem fastrand_reproducible_witness:
  "fastrand_run ieee_float 12345
     [(Some (11687571, - 31), 11687571), (Some (16112795, - 27), 2405288369)] \<and>
   fastrand_run ieee_float 12345
     [fastrand01 ieee_float 12345, fastrand01 ieee_float (3812762923 * 12345)] \<and>
   [(Some (11687571, - 31), 11687571), (Some (16112795, - 27), 2405288369)] =
     [fastrand01 ieee_float 12345, fastrand01 ieee_float (3812762923 * 12345)]"
proof -
  have first: "fastrand01 ieee_float 12345 = (Some (11687571, - 31), 11687571)"
    by (simp add: fastrand01_def ieee_eval)
  have second: "fastrand01 ieee_float 11687571 = (Some (16112795, - 27), 2405288369)"
    by (simp add: fastrand01_def ieee_eval)
  have second': "fastrand01 ieee_float 47068558284435 = (Some (16112795, - 27), 2405288369)"
    by (simp add: fastrand01_def ieee_eval)
  have r1: "fastrand_run ieee_float 12345
      [(Some (11687571, - 31), 11687571), (Some (16112795, - 27), 2405288369)]"
    by (simp add: fastrand_run_Cons first second fastrand_run.no_call)
  have r2: "fastrand_run ieee_float 12345
      [fastrand01 ieee_float 12345, fastrand01 ieee_float (3812762923 * 12345)]"
    by (simp add: fastrand_run_Cons first second second' fastrand_run.no_call)
  from fastrand_reproducible [OF r1 r2] r1 r2 show ?thesis
    by (simp add: first second')
qed

section \<open>The sampler\<close>

lemma mcarlo_loop_iterates:
  "k = unat n - unat i \<Longrightarrow> i \<le> n \<Longrightarrow> mcarlo_loop fo n i st = (mcarlo_point fo ^^ k) st"
proof (induction k arbitrary: i st)
  case 0
  then have "unat i = unat n"
    by (simp add: word_le_nat_alt)
  then have "\<not> i < n"
    by (simp add: word_less_nat_alt)
  then show ?case
    by (simp add: mcarlo_loop.simps)
next
  case (Suc k)
  then have less: "i < n"
    by (simp add: word_less_nat_alt)
  then have step: "unat (i + 1) = unat i + 1"
    by unat_arith
  with Suc.prems have "k = unat n - unat (i + 1)" "i + 1 \<le> n"
    by (simp_all add: word_le_nat_alt)
  then have "mcarlo_loop fo n (i + 1) (mcarlo_point fo st) = (mcarlo_point fo ^^ k) (mcarlo_point fo st)"
    by (rule Suc.IH)
  with less show ?case
    by (simp add: mcarlo_loop.simps [of fo n i] funpow_swap1)
qed

lemma approximate_pi_mcarlo_iterates:
  "approximate_pi_mcarlo fo N seed cs = snd ((mcarlo_point fo ^^ unat N) (seed, cs))"
  by (simp add: approximate_pi_mcarlo_def mcarlo_loop_iterates [of "unat N" N 0])

lemma mcarlo_point_cases:
  "mcarlo_point fo (seed, c0, c1) =
     (snd (fastrand01 fo (snd (fastrand01 fo seed))), c0, c1 + 1) \<or>
   mcarlo_point fo (seed, c0, c1) =
     (snd (fastrand01 fo (snd (fastrand01 fo seed))), c0 + 1, c1)"
  by (simp add: mcarlo_point_def split: prod.splits)

lemma mcarlo_points_counts:
  "(mcarlo_point fo ^^ k) (seed, c0, c1) = (seed', c0', c1') \<Longrightarrow>
   \<exists>j \<le> k. c0' = c0 + of_nat j \<and> c1' = c1 + of_nat (k - j)"
proof (induction k arbitrary: seed' c0' c1')
  case 0
  then show ?case by simp
next
  case (Suc k)
  obtain s a b where prev: "(mcarlo_point fo ^^ k) (seed, c0, c1) = (s, a, b)"
    by (cases "(mcarlo_point fo ^^ k) (seed, c0, c1)")
  then obtain j where j: "j \<le> k" "a = c0 + of_nat j" "b = c1 + of_nat (k - j)"
    using Suc.IH by blast
  from Suc.prems prev have last: "mcarlo_point fo (s, a, b) = (seed', c0', c1')"
    by simp
  from mcarlo_point_cases [of fo s a b] show ?case
  proof
    assume "mcarlo_point fo (s, a, b) = (snd (fastrand01 fo (snd (fastrand01 fo s))), a, b + 1)"
    with last j have "j \<le> Suc k" "c0' = c0 + of_nat j" "c1' = c1 + of_nat (Suc k - j)"
      by (simp_all add: Suc_diff_le)
    then show ?thesis by blast
  next
    assume "mcarlo_point fo (s, a, b) = (snd (fastrand01 fo (snd (fastrand01 fo s))), a + 1, b)"
    with last j have "Suc j \<le> Suc k" "c0' = c0 + of_nat (Suc j)" "c1' = c1 + of_nat (Suc k - Suc j)"
      by simp_all
    then show ?thesis by blast
  qed
qed

lemma approximate_pi_mcarlo_counts:
  assumes "approximate_pi_mcarlo fo N seed (c0, c1) = (c0', c1')"
  shows "\<exists>j \<le> unat N. c0' = c0 + of_nat j \<and> c1' = c1 + of_nat (unat N - j)"
proof -
  obtain s where "(mcarlo_point fo ^^ unat N) (seed, c0, c1) = (s, c0', c1')"
    using assms by (cases "(mcarlo_point fo ^^ unat N) (seed, c0, c1)")
      (simp add: approximate_pi_mcarlo_iterates)
  then show ?thesis
    by (rule mcarlo_points_counts)
qed

lemma approximate_pi_mcarlo_sum:
  assumes "approximate_pi_mcarlo fo N seed (c0, c1) = (c0', c1')"
  shows "c0' + c1' = c0 + c1 + N"
proof -
  from approximate_pi_mcarlo_counts [OF assms] obtain j
    where j: "j \<le> unat N" "c0' = c0 + of_nat j" "c1' = c1 + of_nat (unat N - j)"
    by blast
  from j(1) have "(of_nat j :: u64) + of_nat (unat N - j) = of_nat (unat N)"
    by (simp flip: of_nat_add)
  then have "(of_nat j :: u64) + of_nat (unat N - j) = N"
    by simp
  then have "c0 + of_nat j + (c1 + of_nat (unat N - j)) = c0 + c1 + N"
    by (simp add: ac_simps)
  with j show ?thesis by simp
qed

lemma approximate_pi_mcarlo_sum_nat:
  assumes "approximate_pi_mcarlo fo N seed (c0, c1) = (c0', c1')"
    and "unat c0 + unat c1 + unat N < 2 ^ 64"
  shows "unat c0' + unat c1' = unat c0 + unat c1 + unat N"
proof -
  from approximate_pi_mcarlo_counts [OF assms(1)] obtain j
    where j: "j \<le> unat N" "c0' = c0 + of_nat j" "c1' = c1 + of_nat (unat N - j)"
    by blast
  from j(1) assms(2) have small: "j < 2 ^ 64" "unat N - j < 2 ^ 64"
    by simp_all
  then have u: "unat (of_nat j :: u64) = j" "unat (of_nat (unat N - j) :: u64) = unat N - j"
    by (simp_all add: unat_of_nat)
  from j(1) assms(2) have "unat c0 + j < 2 ^ LENGTH(64)" "unat c1 + (unat N - j) < 2 ^ LENGTH(64)"
    by simp_all
  then have "unat c0 + unat (of_nat j :: u64) < 2 ^ LENGTH(64)"
    "unat c1 + unat (of_nat (unat N - j) :: u64) < 2 ^ LENGTH(64)"
    by (simp_all only: u)
  then have "unat (c0 + of_nat j) = unat c0 + j" "unat (c1 + of_nat (unat N - j)) = unat c1 + (unat N - j)"
    by (simp_all only: unat_add_lem [THEN iffD1] u)
  with j show ?thesis by simp
qed

text \<open>
  Claim C9. One pass of the sampler's loop body adds one to exactly one of the two
  counters: to the inside counter \<open>counter_arrays[1]\<close> when the point test
  \<open>x * x + y * y < 1.0\<close> holds, else to the outside counter \<open>counter_arrays[0]\<close>. A call
  of the sampler makes \<open>num_iterations\<close> passes, so the counters \<open>(o', i')\<close> it leaves
  from \<open>(o, i)\<close> satisfy \<open>o' + i' = o + i + N\<close> in the arithmetic of \<open>counter_t\<close>, and as
  an equation between natural numbers whenever \<open>o + i + N\<close> fits 64 bits (as it does
  for the zeroed rows that \<open>main\<close> hands over).
\<close>

theorem sampler_counts_every_point:
  assumes "approximate_pi_mcarlo fo N seed (c0, c1) = (c0', c1')"
  shows
    "mcarlo_point fo (s, a, b) =
       (if s_less_dec fo
             (s_add fo
                (s_mul fo (fst (fastrand01 fo s)) (fst (fastrand01 fo s)))
                (s_mul fo (fst (fastrand01 fo (snd (fastrand01 fo s))))
                          (fst (fastrand01 fo (snd (fastrand01 fo s))))))
             1 0
        then (snd (fastrand01 fo (snd (fastrand01 fo s))), a, b + 1)
        else (snd (fastrand01 fo (snd (fastrand01 fo s))), a + 1, b)) \<and>
     approximate_pi_mcarlo fo N seed (c0, c1) = snd ((mcarlo_point fo ^^ unat N) (seed, c0, c1)) \<and>
     c0' + c1' = c0 + c1 + N \<and>
     (unat c0 + unat c1 + unat N < 2 ^ 64 \<longrightarrow>
        unat c0' + unat c1' = unat c0 + unat c1 + unat N)"
proof (intro conjI impI)
  show "mcarlo_point fo (s, a, b) =
       (if s_less_dec fo
             (s_add fo
                (s_mul fo (fst (fastrand01 fo s)) (fst (fastrand01 fo s)))
                (s_mul fo (fst (fastrand01 fo (snd (fastrand01 fo s))))
                          (fst (fastrand01 fo (snd (fastrand01 fo s))))))
             1 0
        then (snd (fastrand01 fo (snd (fastrand01 fo s))), a, b + 1)
        else (snd (fastrand01 fo (snd (fastrand01 fo s))), a + 1, b))"
    by (simp add: mcarlo_point_def split: prod.splits)
  show "approximate_pi_mcarlo fo N seed (c0, c1) = snd ((mcarlo_point fo ^^ unat N) (seed, c0, c1))"
    by (rule approximate_pi_mcarlo_iterates)
  from assms show "c0' + c1' = c0 + c1 + N"
    by (rule approximate_pi_mcarlo_sum)
next
  assume "unat c0 + unat c1 + unat N < 2 ^ 64"
  with assms show "unat c0' + unat c1' = unat c0 + unat c1 + unat N"
    by (rule approximate_pi_mcarlo_sum_nat)
qed

lemma two_points_from_12345: "approximate_pi_mcarlo ieee_float 2 12345 (0, 0) = (0, 2)"
proof -
  have "mcarlo_point ieee_float (12345, 0, 0) = (2405288369, 0, 1)"
    by (simp add: mcarlo_point_def fastrand01_def ieee_eval)
  moreover have "mcarlo_point ieee_float (2405288369, 0, 1) = (659606889, 0, 2)"
    by (simp add: mcarlo_point_def fastrand01_def ieee_eval)
  moreover have "unat (2 :: u64) = Suc (Suc 0)"
    by simp
  ultimately show ?thesis
    by (simp only: approximate_pi_mcarlo_iterates funpow.simps comp_apply id_apply snd_conv)
qed

theorem sampler_counts_every_point_witness:
  "approximate_pi_mcarlo ieee_float 2 12345 (0, 0) = (0, 2) \<and>
   unat (0 :: u64) + unat (0 :: u64) + unat (2 :: u64) < 2 ^ 64 \<and>
   mcarlo_point ieee_float (12345, 0, 0) = (2405288369, 0, 1) \<and>
   snd ((mcarlo_point ieee_float ^^ unat (2 :: u64)) (12345, 0, 0)) = (0, 2) \<and>
   unat (0 :: u64) + unat (2 :: u64) = unat (0 :: u64) + unat (0 :: u64) + unat (2 :: u64)"
proof -
  have point: "mcarlo_point ieee_float (12345, 0, 0) = (2405288369, 0, 1)"
    by (simp add: mcarlo_point_def fastrand01_def ieee_eval)
  from sampler_counts_every_point [OF two_points_from_12345, of 12345 0 0]
  have "approximate_pi_mcarlo ieee_float 2 12345 (0, 0) =
      snd ((mcarlo_point ieee_float ^^ unat (2 :: u64)) (12345, 0, 0))"
    by (rule conjunct2 [THEN conjunct1])
  then show ?thesis
    using two_points_from_12345 point by simp
qed

section \<open>The orchestrator\<close>

text \<open>
  Claim C1 asks for \<open>K - 1\<close> created threads. The program creates none, for every thread
  count \<open>K \<ge> 1\<close>: the lists of created and of joined threads are empty, the only
  sampler call is the one of \<open>main\<close> on the last row, and the two totals are the counters
  of that call, \<open>N\<close> points together. With \<open>K = 2\<close> the claim would have one worker on
  row 0 and \<open>2 * N\<close> points.
\<close>

theorem main_mcarlo_creates_no_thread:
  assumes "length argv = 3" and "1 \<le> strtol (argv ! 2)"
  shows "\<exists>r. main_mcarlo ops fo seeds argv = Inr (Inr r) \<and> mc_status r = 0 \<and>
    created r = [] \<and> joined r = [] \<and>
    (outside r, inside r) =
      approximate_pi_mcarlo fo (strtoul (argv ! 1)) (seeds (nat (strtol (argv ! 2) - 1))) (0, 0) \<and>
    outside r + inside r = strtoul (argv ! 1)"
proof -
  let ?local = "approximate_pi_mcarlo fo (strtoul (argv ! 1)) (seeds (nat (strtol (argv ! 2) - 1))) (0, 0)"
  have "?local = (fst ?local, snd ?local)"
    by simp
  then have "fst ?local + snd ?local = 0 + 0 + strtoul (argv ! 1)"
    by (rule approximate_pi_mcarlo_sum)
  moreover from assms(2) have "nat (strtol (argv ! 2) - 1) < nat (strtol (argv ! 2))"
    by simp
  ultimately show ?thesis
    using assms
    by (simp add: main_mcarlo_def if_num_threads_gt_1_def Let_def)
qed

theorem main_mcarlo_creates_no_thread_witness:
  "length [''pi_mcarlo'', ''2'', ''2''] = 3 \<and> 1 \<le> strtol ([''pi_mcarlo'', ''2'', ''2''] ! 2) \<and>
   (\<exists>r. main_mcarlo ieee_double ieee_float (\<lambda>i. 12345) [''pi_mcarlo'', ''2'', ''2''] = Inr (Inr r) \<and>
      created r = [] \<and> joined r = [] \<and> outside r = 0 \<and> inside r = 2)"
proof -
  have num: "strtol ''2'' = 2" "strtoul ''2'' = 2"
    by (simp_all add: libc_eval)
  from main_mcarlo_creates_no_thread
    [of "[''pi_mcarlo'', ''2'', ''2'']" ieee_double ieee_float "\<lambda>i. 12345"]
  show ?thesis
    by (simp add: num two_points_from_12345) (metis prod.inject)
qed

section \<open>Binary splitting: when the recursion returns\<close>

lemma binarysplit_unit: "b - a = 1 \<Longrightarrow> chudnovsky_binarysplit ops a b = Some (binarysplit_leaf ops a)"
  by (subst chudnovsky_binarysplit.simps) simp

lemma binarysplit_halves:
  "b - a \<noteq> 1 \<Longrightarrow> chudnovsky_binarysplit ops a b =
     do {
       am \<leftarrow> chudnovsky_binarysplit ops a ((a + b) div 2);
       mb \<leftarrow> chudnovsky_binarysplit ops ((a + b) div 2) b;
       Some (binarysplit_combine ops am mb)
     }"
  by (subst chudnovsky_binarysplit.simps) (simp add: Let_def)

text \<open>Below \<open>2^63\<close> the sum \<open>a + b\<close> does not wrap, and the midpoint lies between the ends.\<close>

lemma midpoint_unat:
  fixes a b :: u64
  assumes "a < b" "unat b \<le> 2 ^ 63"
  shows "unat ((a + b) div 2) = (unat a + unat b) div 2"
proof -
  from assms have "unat a + unat b < 2 ^ LENGTH(64)"
    by (simp add: word_less_nat_alt)
  then have "unat (a + b) = unat a + unat b"
    by (simp only: unat_add_lem [THEN iffD1])
  then show ?thesis
    by (simp add: unat_div)
qed

lemma unit_range_unat:
  fixes a b :: u64
  assumes "a < b"
  shows "b - a = 1 \<longleftrightarrow> unat b = Suc (unat a)"
proof -
  from assms have "unat (b - a) = unat b - unat a"
    by (simp add: unat_sub word_le_nat_alt word_less_nat_alt)
  moreover have "b - a = 1 \<longleftrightarrow> unat (b - a) = 1"
    by (simp add: word_unat_eq_iff)
  moreover from assms have "unat a < unat b"
    by (simp add: word_less_nat_alt)
  ultimately show ?thesis by auto
qed

lemma binarysplit_returns:
  fixes a b :: u64
  shows "n = unat b - unat a \<Longrightarrow> a < b \<Longrightarrow> unat b \<le> 2 ^ 63 \<Longrightarrow>
    \<exists>r. chudnovsky_binarysplit ops a b = Some r"
proof (induction n arbitrary: a b rule: less_induct)
  case (less n)
  show ?case
  proof (cases "b - a = 1")
    case True
    then show ?thesis
      by (simp add: binarysplit_unit)
  next
    case False
    let ?m = "(a + b) div 2"
    from less.prems have ab: "unat a < unat b"
      by (simp add: word_less_nat_alt)
    from False less.prems have wide: "unat b \<noteq> Suc (unat a)"
      by (simp add: unit_range_unat)
    have m: "unat ?m = (unat a + unat b) div 2"
      using less.prems by (simp add: midpoint_unat)
    with ab wide have am: "unat a < unat ?m" and mb: "unat ?m < unat b"
      by linarith+
    have "\<exists>l. chudnovsky_binarysplit ops a ?m = Some l"
    proof (rule less.IH [OF _ refl])
      from am mb less.prems show "unat ?m - unat a < n" by simp
      from am show "a < ?m" by (simp add: word_less_nat_alt)
      from mb less.prems show "unat ?m \<le> 2 ^ 63" by simp
    qed
    then obtain l where l: "chudnovsky_binarysplit ops a ?m = Some l" ..
    have "\<exists>r. chudnovsky_binarysplit ops ?m b = Some r"
    proof (rule less.IH [OF _ refl])
      from am mb less.prems show "unat b - unat ?m < n" by simp
      from mb show "?m < b" by (simp add: word_less_nat_alt)
      from less.prems show "unat b \<le> 2 ^ 63" by simp
    qed
    then obtain r where r: "chudnovsky_binarysplit ops ?m b = Some r" ..
    from False l r show ?thesis
      by (simp add: binarysplit_halves)
  qed
qed


lemma leaf0: "binarysplit_leaf ieee_double 0 =
    \<lparr>Pab = Some (4503599627370496, - 52), Qab = Some (4503599627370496, - 52),
     Tab = Some (7296832145195008, - 29)\<rparr>"
  by (simp add: binarysplit_leaf_def ieee_eval Let_def)

lemma leaf1: "binarysplit_leaf ieee_double 1 =
    \<lparr>Pab = Some (5629499534213120, - 50), Qab = Some (5469529430016000, 1),
     Tab = Some (- 5858724864327680, - 21)\<rparr>"
  by (simp add: binarysplit_leaf_def ieee_eval)

lemma leaf2: "binarysplit_leaf ieee_double 2 =
    \<lparr>Pab = Some (8127589952520192, - 45), Qab = Some (5469529430016000, 4),
     Tab = Some (8355655102857216, - 15)\<rparr>"
  by (simp add: binarysplit_leaf_def ieee_eval)

lemma leaf3: "binarysplit_leaf ieee_double 3 =
    \<lparr>Pab = Some (4859841394769920, - 42), Qab = Some (4614915456576000, 6),
     Tab = Some (- 7463559377530880, - 12)\<rparr>"
  by (simp add: binarysplit_leaf_def ieee_eval)

lemma split02: "chudnovsky_binarysplit ieee_double 0 2 =
    Some \<lparr>Pab = Some (5629499534213120, - 50), Qab = Some (5469529430016000, 1),
     Tab = Some (8861853065595976, 24)\<rparr>"
  by (simp add: binarysplit_halves binarysplit_unit leaf0 leaf1 binarysplit_combine_def ieee_eval)

lemma split24: "chudnovsky_binarysplit ieee_double 2 4 =
    Some \<lparr>Pab = Some (8770495017123840, - 35), Qab = Some (5604720222768957, 62),
     Tab = Some (8562182492786991, 43)\<rparr>"
  by (simp add: binarysplit_halves binarysplit_unit leaf2 leaf3 binarysplit_combine_def ieee_eval)

lemma split04: "chudnovsky_binarysplit ieee_double 0 4 =
    Some \<lparr>Pab = Some (5481559385702400, - 32), Qab = Some (6806817821711917, 115),
     Tab = Some (5514278710089564, 139)\<rparr>"
  by (simp add: binarysplit_halves [of 4 0] split02 split24 binarysplit_combine_def ieee_eval)


text \<open>
  \<open>chudnovsky_binarysplit(1, 0)\<close> calls itself with the same arguments, and the call
  with \<open>a = 1\<close>, \<open>b = 2^64 - 1\<close> begins with it: there \<open>a + b\<close> wraps to \<open>0\<close>.
\<close>

lemma binarysplit_1_0_never:
  assumes "chudnovsky_binarysplit ops a b = Some y"
  shows "\<not> (a = 1 \<and> b = 0)"
proof (rule chudnovsky_binarysplit.raw_induct [where P = "\<lambda>ops a b y. \<not> (a = 1 \<and> b = 0)", OF _ assms])
  fix f :: "'a fpu \<Rightarrow> u64 \<Rightarrow> u64 \<Rightarrow> 'a result_flts option" and ops a b y
  assume ih: "\<And>ops a b y. f ops a b = Some y \<Longrightarrow> \<not> (a = 1 \<and> b = 0)"
  assume body: "(if b - a = 1 then Some (binarysplit_leaf ops a)
      else let m = (a + b) div 2
           in f ops a m \<bind> (\<lambda>am. f ops m b \<bind> (\<lambda>mb. Some (binarysplit_combine ops am mb)))) = Some y"
  show "\<not> (a = 1 \<and> b = 0)"
  proof
    assume "a = 1 \<and> b = 0"
    with body obtain am where "f ops 1 0 = Some am"
      by (auto simp add: Let_def split: bind_splits if_splits)
    with ih show False by blast
  qed
qed

lemma binarysplit_1_0: "chudnovsky_binarysplit ops 1 0 = None"
  using binarysplit_1_0_never [of ops 1 0]
  by (cases "chudnovsky_binarysplit ops 1 0") auto

lemma binarysplit_1_max: "chudnovsky_binarysplit ops 1 (- 1) = None"
proof -
  have "(- 1 :: u64) - 1 \<noteq> 1"
    by simp
  then have "chudnovsky_binarysplit ops 1 (- 1) =
      do {
        am \<leftarrow> chudnovsky_binarysplit ops 1 ((1 + - 1) div 2);
        mb \<leftarrow> chudnovsky_binarysplit ops ((1 + - 1) div 2) (- 1);
        Some (binarysplit_combine ops am mb)
      }"
    by (rule binarysplit_halves)
  moreover have "((1 :: u64) + - 1) div 2 = 0"
    by simp
  ultimately show ?thesis
    by (simp only: binarysplit_1_0 bind.simps)
qed

end
